theory Spec2Isabelle
  imports Main "HOL-Library.Sublist"
begin

section \<open>Data model\<close>

text \<open>
  One entry of a parent database, as \<open>populate_parent_db.py\<close> writes it: a dictionary
  with the keys \<open>fs_layers\<close>, \<open>image_tag\<close>, \<open>last_updated\<close> and \<open>created\<close>. The two
  timestamps are UTC epoch seconds (Python integers).
\<close>

record image =
  fs_layers :: string
  image_tag :: string
  last_updated :: int
  created :: int

text \<open>
  A parent database is the dictionary loaded by \<open>json.loads\<close>: repository name to list of
  images. Python dictionaries iterate in insertion order, and the order decides which match
  the resolver keeps, so the dictionary is an association list in key order. A dictionary
  has each key once: \<open>distinct (map fst db)\<close> is the well-formedness of a database.
\<close>

type_synonym parent_db = "(string \<times> image list) list"

text \<open>The outcome of opening the database file and parsing its first line.\<close>

datatype db_file =
  Unreadable \<comment> \<open>\<open>open\<close> raises \<open>IOError\<close>\<close>
| Unparsable \<comment> \<open>\<open>json.loads\<close> or \<open>.keys()\<close> raises\<close>
| Parsed parent_db

datatype py_exception =
  IOError | NameError | KeyError | TypeError | ValueError | AttributeError | TransportError

section \<open>Ancestry resolver: \<open>dockerhub_api.get_image_parent\<close>\<close>

text \<open>The dictionary \<open>{"name": repo, "tag": tag}\<close>; the empty dictionary is \<open>None\<close>.\<close>

record parent =
  name :: string
  tag :: string

text \<open>\<open>get_image_parent\<close> returns the string \<open>""\<close> for an unknown database type.\<close>

datatype parent_result = EmptyString | ParentDict "parent option"

definition image_id_length :: nat where
  "image_id_length = 12"

text \<open>
  \<open>[image_layers[id:id + image_id_length] for id in range(0, len(image_layers), image_id_length)]\<close>
\<close>

function image_ids :: "string \<Rightarrow> string list" where
  "image_ids image_layers =
     (if image_layers = [] then []
      else take image_id_length image_layers # image_ids (drop image_id_length image_layers))"
  by pat_completeness auto
termination
  by (relation "measure length") (auto simp: image_id_length_def)

declare image_ids.simps [simp del]

text \<open>\<open>list.index\<close>: the first position of an equal element; \<open>None\<close> is \<open>ValueError\<close>.\<close>

fun index_of :: "'a \<Rightarrow> 'a list \<Rightarrow> nat option" where
  "index_of x [] = None"
| "index_of x (y # ys) =
     (if x = y then Some 0 else (case index_of x ys of None \<Rightarrow> None | Some i \<Rightarrow> Some (Suc i)))"

text \<open>
  \<open>repositories[:repositories.index(repository)] + repositories[repositories.index(repository) + 1:]\<close>;
  \<open>None\<close> when \<open>index\<close> raises \<open>ValueError\<close>.
\<close>

definition without_repository :: "string \<Rightarrow> string list \<Rightarrow> string list option" where
  "without_repository repository repositories =
     (case index_of repository repositories of
        None \<Rightarrow> None
      | Some i \<Rightarrow> Some (take i repositories @ drop (i + 1) repositories))"

text \<open>
  \<open>repositories = list(base_db.keys())\<close>, then the slice. When the repository is not a
  key, the bare \<open>except\<close> passes after the \<open>ValueError\<close> and \<open>repositories\<close> keeps every
  key.
\<close>

definition candidate_repositories :: "string \<Rightarrow> parent_db \<Rightarrow> string list" where
  "candidate_repositories repository base_db =
     (let repositories = map fst base_db in
      case without_repository repository repositories of
        None \<Rightarrow> repositories
      | Some others \<Rightarrow> others)"

text \<open>\<open>for image in base_db[repo]\<close>: every match overwrites \<open>parent\<close>, there is no break.\<close>

fun scan_images :: "string \<Rightarrow> string \<Rightarrow> image list \<Rightarrow> parent option \<Rightarrow> parent option" where
  "scan_images current_layers repo [] p = p"
| "scan_images current_layers repo (img # images) p =
     scan_images current_layers repo images
       (if current_layers = fs_layers img
        then Some \<lparr>name = repo, tag = image_tag img\<rparr> else p)"

text \<open>\<open>for repo in repositories\<close>; \<open>base_db[repo]\<close> raises \<open>KeyError\<close> on a missing key.\<close>

fun scan_repositories ::
  "parent_db \<Rightarrow> string \<Rightarrow> string list \<Rightarrow> parent option \<Rightarrow> py_exception + parent option" where
  "scan_repositories base_db current_layers [] p = Inr p"
| "scan_repositories base_db current_layers (repo # repositories) p =
     (case map_of base_db repo of
        None \<Rightarrow> Inl KeyError
      | Some images \<Rightarrow>
          scan_repositories base_db current_layers repositories
            (scan_images current_layers repo images p))"

text \<open>\<open>for image_id in image_ids: current_layers = current_layers + image_id; ...\<close>\<close>

fun retrieve_parent ::
  "parent_db \<Rightarrow> string list \<Rightarrow> string \<Rightarrow> string list \<Rightarrow> parent option
     \<Rightarrow> py_exception + parent option" where
  "retrieve_parent base_db repositories current_layers [] p = Inr p"
| "retrieve_parent base_db repositories current_layers (image_id # ids) p =
     (case scan_repositories base_db (current_layers @ image_id) repositories p of
        Inl e \<Rightarrow> Inl e
      | Inr p' \<Rightarrow> retrieve_parent base_db repositories (current_layers @ image_id) ids p')"

text \<open>
  The whole function. The file argument stands for the most recent database file of the
  requested type. After a parse failure the bare \<open>except\<close> passes with \<open>repositories\<close>
  unbound, so the first iteration of the walk raises \<open>NameError\<close>; with no iteration the
  initial empty dictionary is returned.
\<close>

definition get_image_parent ::
  "string \<Rightarrow> string \<Rightarrow> string \<Rightarrow> db_file \<Rightarrow> py_exception + parent_result" where
  "get_image_parent repository image_layers db_type file =
     (if db_type \<noteq> ''official'' \<and> db_type \<noteq> ''verified'' then Inr EmptyString
      else case file of
        Unreadable \<Rightarrow> Inl IOError
      | Unparsable \<Rightarrow>
          (if image_ids image_layers = [] then Inr (ParentDict None) else Inl NameError)
      | Parsed base_db \<Rightarrow>
          (case retrieve_parent base_db (candidate_repositories repository base_db) []
                  (image_ids image_layers) None of
             Inl e \<Rightarrow> Inl e
           | Inr p \<Rightarrow> Inr (ParentDict p)))"

subsection \<open>Vocabulary of the resolver's properties\<close>

text \<open>The entries of the database in repositories other than the owning one.\<close>

definition candidates :: "string \<Rightarrow> parent_db \<Rightarrow> parent_db" where
  "candidates repository base_db = filter (\<lambda>e. fst e \<noteq> repository) base_db"

text \<open>
  The records of the given entries whose full layers equal \<open>p\<close>, each with its repository,
  in scan order: entries in key order, records in list order.
\<close>

definition hits :: "string \<Rightarrow> parent_db \<Rightarrow> (string \<times> image) list" where
  "hits p entries =
     concat (map (\<lambda>e. map (Pair (fst e)) (filter (\<lambda>i. fs_layers i = p) (snd e))) entries)"

definition owner :: "string \<times> image \<Rightarrow> parent" where
  "owner h = \<lparr>name = fst h, tag = image_tag (snd h)\<rparr>"

text \<open>
  The token-aligned prefixes of a layer string, shortest first: the first \<open>k\<close> tokens for
  \<open>k = 1, 2, ...\<close> up to the number of tokens.
\<close>

definition aligned_prefixes :: "string \<Rightarrow> string list" where
  "aligned_prefixes image_layers =
     map (\<lambda>k. take (image_id_length * k) image_layers)
       [1 ..< Suc ((length image_layers + image_id_length - 1) div image_id_length)]"

text \<open>
  The answer left by a scan that met the given matches in order, starting from \<open>q\<close>:
  each match overwrites the answer, so the last one stands.
\<close>

definition latest :: "(string \<times> image) list \<Rightarrow> parent option \<Rightarrow> parent option" where
  "latest hs q = (if hs = [] then q else Some (owner (last hs)))"

text \<open>The values \<open>current_layers\<close> takes during the walk over the given tokens.\<close>

fun running :: "string \<Rightarrow> string list \<Rightarrow> string list" where
  "running cur [] = []"
| "running cur (i # ids) = (cur @ i) # running (cur @ i) ids"

subsection \<open>Example databases\<close>

definition layer_a :: string where
  "layer_a = ''aaaaaaaaaaaa''"

definition layer_b :: string where
  "layer_b = ''bbbbbbbbbbbb''"

definition layer_c :: string where
  "layer_c = ''cccccccccccc''"

definition debian_10 :: image where
  "debian_10 = \<lparr>fs_layers = layer_a, image_tag = ''10'', last_updated = 100, created = 90\<rparr>"

definition python_38 :: image where
  "python_38 =
     \<lparr>fs_layers = layer_a @ layer_b, image_tag = ''3.8'', last_updated = 200, created = 190\<rparr>"

definition pypy_3 :: image where
  "pypy_3 =
     \<lparr>fs_layers = layer_a @ layer_b, image_tag = ''3'', last_updated = 300, created = 290\<rparr>"

definition app_1 :: image where
  "app_1 =
     \<lparr>fs_layers = layer_a @ layer_b @ layer_c, image_tag = ''1.0'', last_updated = 400,
      created = 390\<rparr>"

text \<open>A chain: \<open>debian\<close> below \<open>python\<close> below \<open>app\<close>.\<close>

definition chain_db :: parent_db where
  "chain_db = [(''debian'', [debian_10]), (''python'', [python_38]), (''app'', [app_1])]"

text \<open>The same with \<open>pypy\<close>, whose image has the layers of \<open>python\<close>'s.\<close>

definition tie_db :: parent_db where
  "tie_db =
     [(''debian'', [debian_10]), (''python'', [python_38]), (''pypy'', [pypy_3]),
      (''app'', [app_1])]"

section \<open>Layer extractor: \<open>populate_parent_db.get_layers_image\<close>\<close>

text \<open>
  One decoded line of the pull stream: a dictionary read with \<open>line.get("status")\<close>,
  \<open>line.get("id")\<close> and \<open>line.get("error")\<close>; a missing key reads as \<open>None\<close>.
\<close>

record line =
  status :: "string option"
  line_id :: "string option"
  error :: "string option"

text \<open>
  What iterating the stream of one attempt yields: a line, or an exception raised by the
  client (\<open>docker.errors.APIError\<close> with its \<open>str(e)\<close>, or any other exception). A failing
  \<open>client.login\<close> is a stream that starts with the exception.
\<close>

datatype pull_item = Line line | APIError string | OtherError

text \<open>How the loop over one stream ends.\<close>

datatype pull_outcome =
  Downloading_seen \<comment> \<open>\<open>is_retrieved = True; break\<close>\<close>
| Stream_ended \<comment> \<open>the stream is exhausted\<close>
| Raised_APIError string
| Raised py_exception

text \<open>\<open>re.search(pattern, s)\<close> for the literal patterns of this module: substring search.\<close>

fun re_search :: "string \<Rightarrow> string \<Rightarrow> bool" where
  "re_search pat [] = (pat = [])"
| "re_search pat (c # cs) = (prefix pat (c # cs) \<or> re_search pat cs)"

text \<open>Python truth of \<open>line.get("error")\<close>: present and not the empty string.\<close>

fun truthy :: "string option \<Rightarrow> bool" where
  "truthy None = False"
| "truthy (Some s) = (s \<noteq> [])"

text \<open>\<open>str(line.get("error"))\<close>\<close>

fun str_of :: "string option \<Rightarrow> string" where
  "str_of None = ''None''"
| "str_of (Some s) = s"

definition layer_status :: "line \<Rightarrow> bool" where
  "layer_status l =
     (status l = Some ''Pulling fs layer'' \<or> status l = Some ''Already exists'')"

text \<open>
  \<open>for line in client.pull(...)\<close> of \<open>get_layers_image\<close>, lines 185 to 203. The
  accumulator is \<open>fs_layer_ids\<close>; \<open>fs_layer_ids += None\<close> raises \<open>TypeError\<close>.
\<close>

fun pull_loop :: "string \<Rightarrow> pull_item list \<Rightarrow> string \<Rightarrow> string \<times> pull_outcome" where
  "pull_loop repo_name [] ids = (ids, Stream_ended)"
| "pull_loop repo_name (APIError msg # rest) ids = (ids, Raised_APIError msg)"
| "pull_loop repo_name (OtherError # rest) ids = (ids, Raised TransportError)"
| "pull_loop repo_name (Line l # rest) ids =
     (if status l = Some ''Pulling fs layer'' \<or> status l = Some ''Already exists'' then
        (case line_id l of
           None \<Rightarrow> (ids, Raised TypeError)
         | Some i \<Rightarrow> pull_loop repo_name rest (ids @ i))
      else if truthy (error l) then
        (if re_search ''cannot be used on this platform'' (str_of (error l))
            \<or> re_search ''no matching manifest'' (str_of (error l))
                \<and> re_search ''microsoft'' repo_name
            \<or> re_search ''no matching manifest'' (str_of (error l))
         then (ids, Raised_APIError ''cannot be used on this platform'')
         else (ids, Raised_APIError []))
      else if status l = Some ''Downloading'' then (ids, Downloading_seen)
      else pull_loop repo_name rest ids)"

definition retrials :: nat where
  "retrials = 3 + 2"

definition retrials_wait_time :: nat where
  "retrials_wait_time = 30"

text \<open>
  The variables of the retry loop, with two ghost fields that record its effects: the
  number of attempts started and the arguments of the \<open>time.sleep\<close> calls, in order.
\<close>

record retrieval =
  fs_layer_ids :: string
  is_retrieved :: bool
  attempts_made :: nat
  sleeps :: "nat list"

text \<open>
  \<open>for retrial in range(1, retrials)\<close>, lines 177 to 223. The stream of each attempt is
  given by its retrial number. An exception other than \<open>APIError\<close> leaves the function.
\<close>

fun retry_loop ::
  "string \<Rightarrow> (nat \<Rightarrow> pull_item list) \<Rightarrow> nat list \<Rightarrow> retrieval \<Rightarrow> py_exception + retrieval" where
  "retry_loop repo_name pulls [] st = Inr st"
| "retry_loop repo_name pulls (retrial # rest) st =
     (if is_retrieved st then Inr st
      else
        (case pull_loop repo_name (pulls retrial) (fs_layer_ids st) of
           (ids, Downloading_seen) \<Rightarrow>
             retry_loop repo_name pulls rest
               (st\<lparr>fs_layer_ids := ids, is_retrieved := True,
                   attempts_made := attempts_made st + 1\<rparr>)
         | (ids, Stream_ended) \<Rightarrow>
             retry_loop repo_name pulls rest
               (st\<lparr>fs_layer_ids := ids, attempts_made := attempts_made st + 1\<rparr>)
         | (ids, Raised e) \<Rightarrow> Inl e
         | (ids, Raised_APIError msg) \<Rightarrow>
             (if re_search ''cannot be used on this platform'' msg then
                Inr (st\<lparr>fs_layer_ids := ids, attempts_made := attempts_made st + 1\<rparr>)
              else
                (let ids' = (if re_search ''docker login'' msg then ids else []);
                     st' = st\<lparr>fs_layer_ids := ids', attempts_made := attempts_made st + 1\<rparr>
                 in if retrial < retrials - 1
                    then retry_loop repo_name pulls rest
                           (st'\<lparr>sleeps := sleeps st' @ [retrials_wait_time]\<rparr>)
                    else retry_loop repo_name pulls rest st'))))"

definition get_layers_image_run ::
  "string \<Rightarrow> string \<Rightarrow> (nat \<Rightarrow> pull_item list) \<Rightarrow> py_exception + retrieval" where
  "get_layers_image_run repo_name tag_name pulls =
     retry_loop repo_name pulls [1 ..< retrials]
       \<lparr>fs_layer_ids = [], is_retrieved = False, attempts_made = 0, sleeps = []\<rparr>"

text \<open>\<open>return fs_layer_ids\<close>\<close>

definition get_layers_image ::
  "string \<Rightarrow> string \<Rightarrow> (nat \<Rightarrow> pull_item list) \<Rightarrow> py_exception + string" where
  "get_layers_image repo_name tag_name pulls =
     (case get_layers_image_run repo_name tag_name pulls of
        Inl e \<Rightarrow> Inl e
      | Inr st \<Rightarrow> Inr (fs_layer_ids st))"

subsection \<open>Vocabulary of the extractor's properties\<close>

text \<open>The identifier announced by a stream item: that of a layer line, nothing otherwise.\<close>

fun token :: "pull_item \<Rightarrow> string" where
  "token (Line l) =
     (if layer_status l then (case line_id l of None \<Rightarrow> [] | Some i \<Rightarrow> i) else [])"
| "token (APIError msg) = []"
| "token OtherError = []"

definition tokens :: "pull_item list \<Rightarrow> string" where
  "tokens items = concat (map token items)"

text \<open>
  A progress event that neither ends nor fails the loop: a layer line that carries its
  identifier, or a line with another status than \<open>Downloading\<close> and no error.
\<close>

fun progress_item :: "pull_item \<Rightarrow> bool" where
  "progress_item (Line l) =
     (if layer_status l then line_id l \<noteq> None
      else \<not> truthy (error l) \<and> status l \<noteq> Some ''Downloading'')"
| "progress_item (APIError msg) = False"
| "progress_item OtherError = False"

text \<open>The event at which byte transfer begins: status \<open>Downloading\<close>, no error.\<close>

definition downloading_line :: "line \<Rightarrow> bool" where
  "downloading_line l = (status l = Some ''Downloading'' \<and> \<not> truthy (error l))"

text \<open>
  An attempt fails transiently when its stream raises an \<open>APIError\<close> that is neither the
  incompatible-platform signal nor a login request: the last branch of the handler.
\<close>

definition fails_transiently :: "string \<Rightarrow> pull_item list \<Rightarrow> bool" where
  "fails_transiently repo_name items =
     (case snd (pull_loop repo_name items []) of
        Raised_APIError msg \<Rightarrow>
          \<not> re_search ''cannot be used on this platform'' msg \<and> \<not> re_search ''docker login'' msg
      | _ \<Rightarrow> False)"

subsection \<open>Example streams\<close>

definition pulling :: "string \<Rightarrow> pull_item" where
  "pulling i = Line \<lparr>status = Some ''Pulling fs layer'', line_id = Some i, error = None\<rparr>"

definition existing :: "string \<Rightarrow> pull_item" where
  "existing i = Line \<lparr>status = Some ''Already exists'', line_id = Some i, error = None\<rparr>"

definition downloading :: line where
  "downloading = \<lparr>status = Some ''Downloading'', line_id = Some layer_b, error = None\<rparr>"

text \<open>A pull that announces two layers, starts the transfer, and goes on.\<close>

definition good_stream :: "pull_item list" where
  "good_stream =
     [Line \<lparr>status = Some ''Pulling from library/redis'', line_id = Some ''7'', error = None\<rparr>,
      existing layer_a, pulling layer_b, Line downloading, pulling layer_c,
      APIError ''500 Server Error'']"

text \<open>A pull that announces one layer and then fails on the registry's side.\<close>

definition server_error_stream :: "pull_item list" where
  "server_error_stream = [pulling layer_a, APIError ''500 Server Error: Internal Server Error'']"

definition failing_pulls :: "nat \<Rightarrow> pull_item list" where
  "failing_pulls retrial = server_error_stream"

text \<open>Four failing attempts; a fifth would succeed.\<close>

definition fifth_succeeds_pulls :: "nat \<Rightarrow> pull_item list" where
  "fifth_succeeds_pulls retrial = (if retrial < 5 then server_error_stream else good_stream)"

text \<open>Two failing attempts, then a good one.\<close>

definition third_succeeds_pulls :: "nat \<Rightarrow> pull_item list" where
  "third_succeeds_pulls retrial = (if retrial < 3 then server_error_stream else good_stream)"

definition good_pulls :: "nat \<Rightarrow> pull_item list" where
  "good_pulls retrial = good_stream"

section \<open>The registry as the synchronizer sees it\<close>

text \<open>
  The \<open>last_updated\<close> field of a tag object of Docker Hub's tags API: missing or JSON
  \<open>null\<close>, the string \<open>"null"\<close>, or a timestamp that \<open>time.strptime\<close> and
  \<open>calendar.timegm\<close> turn into epoch seconds.
\<close>

datatype timestamp_field = Absent | Null_string | Timestamp int

text \<open>
  The result of \<open>dockerhub_api.get_repository_tag_query_v2\<close>: the empty string when the
  request fails, the tag object otherwise.
\<close>

datatype tag_object = No_tag_object | Tag_object timestamp_field

text \<open>
  The collaborators, as functions of their arguments: the catalogue of
  \<open>get_official_images\<close> (repository names), \<open>get_repository_tags_query_v2\<close>,
  \<open>get_repository_tag_query_v2\<close>, the creation time in the version object of
  \<open>microbadger_api.get_repository_tag_query_v1\<close> (\<open>None\<close> for its empty result), and the
  pull stream of a repository and tag at each attempt.
\<close>

record hub =
  official_images :: "string list"
  repository_tags :: "string \<Rightarrow> string list"
  tag_query :: "string \<Rightarrow> string \<Rightarrow> tag_object"
  created_query :: "string \<Rightarrow> string \<Rightarrow> int option"
  pull_streams :: "string \<Rightarrow> string \<Rightarrow> nat \<Rightarrow> pull_item list"

section \<open>Repository extraction: \<open>populate_parent_db.get_layers_official_repository\<close>\<close>

text \<open>The stream loop of lines 271 to 281: no error branch.\<close>

fun official_pull_loop :: "pull_item list \<Rightarrow> string \<Rightarrow> string \<times> pull_outcome" where
  "official_pull_loop [] ids = (ids, Stream_ended)"
| "official_pull_loop (APIError msg # rest) ids = (ids, Raised_APIError msg)"
| "official_pull_loop (OtherError # rest) ids = (ids, Raised TransportError)"
| "official_pull_loop (Line l # rest) ids =
     (if status l = Some ''Pulling fs layer'' \<or> status l = Some ''Already exists'' then
        (case line_id l of
           None \<Rightarrow> (ids, Raised TypeError)
         | Some i \<Rightarrow> official_pull_loop rest (ids @ i))
      else if status l = Some ''Downloading'' then (ids, Downloading_seen)
      else official_pull_loop rest ids)"

text \<open>The retry loop of lines 263 to 291: every \<open>APIError\<close> resets the accumulator.\<close>

fun official_retry_loop ::
  "(nat \<Rightarrow> pull_item list) \<Rightarrow> nat list \<Rightarrow> retrieval \<Rightarrow> py_exception + retrieval" where
  "official_retry_loop pulls [] st = Inr st"
| "official_retry_loop pulls (retrial # rest) st =
     (if is_retrieved st then Inr st
      else
        (case official_pull_loop (pulls retrial) (fs_layer_ids st) of
           (ids, Downloading_seen) \<Rightarrow>
             official_retry_loop pulls rest
               (st\<lparr>fs_layer_ids := ids, is_retrieved := True,
                   attempts_made := attempts_made st + 1\<rparr>)
         | (ids, Stream_ended) \<Rightarrow>
             official_retry_loop pulls rest
               (st\<lparr>fs_layer_ids := ids, attempts_made := attempts_made st + 1\<rparr>)
         | (ids, Raised e) \<Rightarrow> Inl e
         | (ids, Raised_APIError msg) \<Rightarrow>
             (let st' = st\<lparr>fs_layer_ids := [], attempts_made := attempts_made st + 1\<rparr>
              in if retrial < retrials - 1
                 then official_retry_loop pulls rest
                        (st'\<lparr>sleeps := sleeps st' @ [retrials_wait_time]\<rparr>)
                 else official_retry_loop pulls rest st')))"

text \<open>The extraction of one tag, lines 254 to 291.\<close>

definition retrieve_layers :: "hub \<Rightarrow> string \<Rightarrow> string \<Rightarrow> py_exception + retrieval" where
  "retrieve_layers h repository repository_tag =
     official_retry_loop (pull_streams h repository repository_tag) [1 ..< retrials]
       \<lparr>fs_layer_ids = [], is_retrieved = False, attempts_made = 0, sleeps = []\<rparr>"

text \<open>
  The body of \<open>for repository_tag in repository_tags\<close>, lines 253 to 329: extraction, the
  scan of \<open>images\<close> for equal layers, the two metadata lookups, the append.
\<close>

definition retrieve_repository_tag ::
  "hub \<Rightarrow> string \<Rightarrow> image list \<Rightarrow> string \<Rightarrow> py_exception + image list" where
  "retrieve_repository_tag h repository images repository_tag =
     (case retrieve_layers h repository repository_tag of
        Inl e \<Rightarrow> Inl e
      | Inr st \<Rightarrow>
          (if fs_layer_ids st \<noteq> [] then
             (if list_ex (\<lambda>img. fs_layer_ids st = fs_layers img) images then Inr images
              else
                (case tag_query h repository repository_tag of
                   No_tag_object \<Rightarrow> Inr images
                 | Tag_object Null_string \<Rightarrow> Inl ValueError
                 | Tag_object field \<Rightarrow>
                     (case created_query h repository repository_tag of
                        None \<Rightarrow> Inr images
                      | Some c \<Rightarrow>
                          Inr (images @
                            [\<lparr>fs_layers = fs_layer_ids st, image_tag = repository_tag,
                              last_updated = (case field of Timestamp t \<Rightarrow> t | _ \<Rightarrow> 0),
                              created = c\<rparr>]))))
           else Inr images))"

fun retrieve_repository_tags ::
  "hub \<Rightarrow> string \<Rightarrow> string list \<Rightarrow> image list \<Rightarrow> py_exception + image list" where
  "retrieve_repository_tags h repository [] images = Inr images"
| "retrieve_repository_tags h repository (repository_tag # tags) images =
     (case retrieve_repository_tag h repository images repository_tag of
        Inl e \<Rightarrow> Inl e
      | Inr images' \<Rightarrow> retrieve_repository_tags h repository tags images')"

definition get_layers_official_repository :: "hub \<Rightarrow> string \<Rightarrow> py_exception + image list" where
  "get_layers_official_repository h repository =
     retrieve_repository_tags h repository (repository_tags h repository) []"

section \<open>Incremental synchronizer: \<open>populate_parent_db.update_official_database\<close>\<close>

subsection \<open>The staleness watermark, lines 549 to 561\<close>

definition threshold :: nat where
  "threshold = 30"

text \<open>
  \<open>for image in parent_db[repository]\<close> with the variables \<open>last_updated_time\<close> and \<open>n\<close>.
  The result is the final \<open>last_updated_time\<close>, with a ghost count of the images whose
  \<open>last_updated\<close> the loop compared.
\<close>

fun watermark_loop :: "image list \<Rightarrow> int \<Rightarrow> nat \<Rightarrow> int \<times> nat" where
  "watermark_loop [] last_updated_time n = (last_updated_time, 0)"
| "watermark_loop (img # images) last_updated_time n =
     (if n \<ge> threshold then (last_updated_time, 0)
      else
        (case (if last_updated img > last_updated_time
               then watermark_loop images (last_updated img) n
               else watermark_loop images last_updated_time (n + 1)) of
           (w, examined) \<Rightarrow> (w, Suc examined)))"

definition watermark :: "image list \<Rightarrow> int" where
  "watermark images = fst (watermark_loop images 0 0)"

definition examined_images :: "image list \<Rightarrow> nat" where
  "examined_images images = snd (watermark_loop images 0 0)"

subsection \<open>The update pass of one repository, lines 567 to 647\<close>

definition non_updated_threshold :: nat where
  "non_updated_threshold = 30"

text \<open>
  The variables of the pass: \<open>parent_db[repository]\<close> (the same list object as
  \<open>repository_images\<close>), \<open>added_image_layers\<close>, \<open>n\<close> and \<open>is_image_updated\<close>.
\<close>

record pass =
  repository_images :: "image list"
  added_image_layers :: "string set"
  non_updated :: nat
  is_image_updated :: bool

text \<open>
  \<open>for repository_image in repository_images\<close>, lines 583 to 623. Python iterates the list
  by position while the body changes it: \<open>remove\<close> deletes the first equal element and the
  next position is read from the shortened list; \<open>index\<close> finds the first equal element.
  \<open>get_repository_tag_query_v2\<close> returns \<open>""\<close> on failure, never \<open>None\<close>, so
  \<open>result.get\<close> raises \<open>AttributeError\<close> there.
\<close>

function images_loop ::
  "hub \<Rightarrow> string \<Rightarrow> string \<Rightarrow> string \<Rightarrow> nat \<Rightarrow> pass \<Rightarrow> py_exception + pass" where
  "images_loop h repository new_repository_tag new_image_layers i st =
     (if i \<ge> length (repository_images st) then Inr st
      else
        (let repository_image = repository_images st ! i in
         if fs_layers repository_image = new_image_layers then
           (case tag_query h repository new_repository_tag of
              No_tag_object \<Rightarrow> Inl AttributeError
            | Tag_object field \<Rightarrow>
                (let st' =
                   (case field of
                      Timestamp new_updated_time \<Rightarrow>
                        (if new_updated_time > last_updated repository_image then
                           (case index_of repository_image (repository_images st) of
                              None \<Rightarrow> st
                            | Some image_index \<Rightarrow>
                                st\<lparr>repository_images := (repository_images st)
                                  [image_index := (repository_images st ! image_index)
                                     \<lparr>last_updated := new_updated_time\<rparr>]\<rparr>)
                         else st)
                    | _ \<Rightarrow> st)
                 in images_loop h repository new_repository_tag new_image_layers (i + 1)
                      (st'\<lparr>is_image_updated := True, non_updated := non_updated st' + 1\<rparr>)))
         else if image_tag repository_image = new_repository_tag then
           (if new_image_layers \<in> added_image_layers st then
              images_loop h repository new_repository_tag new_image_layers (i + 1)
                (st\<lparr>repository_images := remove1 repository_image (repository_images st)\<rparr>)
            else
              (case tag_query h repository new_repository_tag of
                 No_tag_object \<Rightarrow> Inl AttributeError
               | Tag_object (Timestamp new_updated_time) \<Rightarrow>
                   (case index_of repository_image (repository_images st) of
                      None \<Rightarrow> Inl ValueError
                    | Some image_index \<Rightarrow>
                        images_loop h repository new_repository_tag new_image_layers (i + 1)
                          (st\<lparr>repository_images := (repository_images st)
                                [image_index := (repository_images st ! image_index)
                                   \<lparr>fs_layers := new_image_layers,
                                    last_updated := new_updated_time\<rparr>],
                              is_image_updated := True,
                              added_image_layers := insert new_image_layers (added_image_layers st)\<rparr>))
               | Tag_object _ \<Rightarrow>
                   images_loop h repository new_repository_tag new_image_layers (i + 1) st))
         else images_loop h repository new_repository_tag new_image_layers (i + 1) st))"
  by pat_completeness auto
termination
proof (relation "measure (\<lambda>(h, repository, t, l, i, st). length (repository_images st) - i)")
  show "wf (measure (\<lambda>(h, repository, t, l, i, st). length (repository_images st) - i))"
    by simp
qed (auto simp: length_remove1 split: if_splits timestamp_field.splits option.splits)

declare images_loop.simps [simp del]

text \<open>
  The body of \<open>for new_repository_tag in new_repository_tags\<close> after the threshold test,
  lines 579 to 647.
\<close>

definition process_tag :: "hub \<Rightarrow> string \<Rightarrow> string \<Rightarrow> pass \<Rightarrow> py_exception + pass" where
  "process_tag h repository new_repository_tag st =
     (case get_layers_image repository new_repository_tag
             (pull_streams h repository new_repository_tag) of
        Inl e \<Rightarrow> Inl e
      | Inr new_image_layers \<Rightarrow>
          (if new_image_layers \<noteq> [] then
             (case images_loop h repository new_repository_tag new_image_layers 0
                     (st\<lparr>is_image_updated := False\<rparr>) of
                Inl e \<Rightarrow> Inl e
              | Inr st' \<Rightarrow>
                  (if \<not> is_image_updated st' \<and> new_image_layers \<notin> added_image_layers st' then
                     (case tag_query h repository new_repository_tag of
                        No_tag_object \<Rightarrow> Inl AttributeError
                      | Tag_object (Timestamp updated_time) \<Rightarrow>
                          (case created_query h repository new_repository_tag of
                             None \<Rightarrow> Inr st'
                           | Some c \<Rightarrow>
                               Inr (st'\<lparr>repository_images := repository_images st' @
                                      [\<lparr>fs_layers = new_image_layers,
                                        image_tag = new_repository_tag,
                                        last_updated = updated_time, created = c\<rparr>],
                                    added_image_layers :=
                                      insert new_image_layers (added_image_layers st')\<rparr>))
                      | Tag_object _ \<Rightarrow> Inr st')
                   else Inr st'))
           else Inr (st\<lparr>is_image_updated := False\<rparr>)))"

fun tags_loop :: "hub \<Rightarrow> string \<Rightarrow> string list \<Rightarrow> pass \<Rightarrow> py_exception + pass" where
  "tags_loop h repository [] st = Inr st"
| "tags_loop h repository (new_repository_tag # tags) st =
     (if non_updated st \<ge> non_updated_threshold then Inr st
      else
        (case process_tag h repository new_repository_tag st of
           Inl e \<Rightarrow> Inl e
         | Inr st' \<Rightarrow> tags_loop h repository tags st'))"

definition update_repository :: "hub \<Rightarrow> string \<Rightarrow> image list \<Rightarrow> py_exception + image list" where
  "update_repository h repository images =
     (case tags_loop h repository (repository_tags h repository)
             \<lparr>repository_images = images, added_image_layers = {}, non_updated = 0,
              is_image_updated = False\<rparr> of
        Inl e \<Rightarrow> Inl e
      | Inr st \<Rightarrow> Inr (repository_images st))"

subsection \<open>The whole run\<close>

text \<open>
  How a call ends for its caller: it returns, an exception propagates out of it, or
  \<open>os._exit\<close> ends the process. What a returned run leaves behind: the contents written
  to the database file, in order, whether the file was renamed with the new timestamp, and
  the exception that the handler of the last lines logged, if any.
\<close>

record sync =
  db_writes :: "parent_db list"
  renamed :: bool
  failure_logged :: "py_exception option"

datatype run = Returned sync | Propagated py_exception | Process_exit

text \<open>How the body of the \<open>try\<close> statement ends.\<close>

datatype body_end = Finished | Failed py_exception | Exited

text \<open>\<open>tags[0]\<close> when there is a tag, \<open>""\<close> otherwise.\<close>

definition get_latest_versioned_tag :: "hub \<Rightarrow> string \<Rightarrow> string" where
  "get_latest_versioned_tag h repository =
     (case repository_tags h repository of [] \<Rightarrow> [] | t # ts \<Rightarrow> t)"

text \<open>
  Lines 524 to 533: each new repository is extracted, appended to the file and to the
  dictionary in memory. The state is the dictionary and the writes so far.
\<close>

fun discover_loop ::
  "hub \<Rightarrow> string list \<Rightarrow> parent_db \<times> parent_db list
     \<Rightarrow> (parent_db \<times> parent_db list) \<times> py_exception option" where
  "discover_loop h [] st = (st, None)"
| "discover_loop h (new_repository # rest) (parent_db, ws) =
     (case get_layers_official_repository h new_repository of
        Inl e \<Rightarrow> ((parent_db, ws), Some e)
      | Inr imgs \<Rightarrow>
          (if imgs \<noteq> []
           then discover_loop h rest
                  (parent_db @ [(new_repository, imgs)], ws @ [parent_db @ [(new_repository, imgs)]])
           else discover_loop h rest (parent_db, ws)))"

text \<open>\<open>parent_db[repository]\<close> after the pass changed the list in place.\<close>

definition store_images :: "string \<Rightarrow> image list \<Rightarrow> parent_db \<Rightarrow> parent_db" where
  "store_images repository images parent_db =
     map (\<lambda>e. if fst e = repository then (fst e, images) else e) parent_db"

text \<open>
  \<open>for repository in list(parent_db.keys())\<close>, lines 539 to 654. \<open>strptime\<close> raises
  \<open>TypeError\<close> on \<open>None\<close> and \<open>ValueError\<close> on \<open>"null"\<close>. The dictionary is written to
  the file at the end of every iteration.
\<close>

fun repositories_loop ::
  "hub \<Rightarrow> string list \<Rightarrow> parent_db \<times> parent_db list
     \<Rightarrow> (parent_db \<times> parent_db list) \<times> py_exception option" where
  "repositories_loop h [] st = (st, None)"
| "repositories_loop h (repository # rest) (parent_db, ws) =
     (case tag_query h repository (get_latest_versioned_tag h repository) of
        No_tag_object \<Rightarrow> ((parent_db, ws), Some AttributeError)
      | Tag_object Absent \<Rightarrow> ((parent_db, ws), Some TypeError)
      | Tag_object Null_string \<Rightarrow> ((parent_db, ws), Some ValueError)
      | Tag_object (Timestamp new_updated_time) \<Rightarrow>
          (case map_of parent_db repository of
             None \<Rightarrow> ((parent_db, ws), Some KeyError)
           | Some images \<Rightarrow>
               (if new_updated_time > watermark images then
                  (case update_repository h repository images of
                     Inl e \<Rightarrow> ((parent_db, ws), Some e)
                   | Inr images' \<Rightarrow>
                       repositories_loop h rest
                         (store_images repository images' parent_db,
                          ws @ [store_images repository images' parent_db]))
                else repositories_loop h rest (parent_db, ws @ [parent_db]))))"

text \<open>
  The body of the \<open>try\<close> statement, lines 502 to 662, with the contents it wrote to the
  file. The catalogue is fetched first, then the file is read. The new repositories are
  \<open>list(set(names) - set(parent_db.keys()))\<close>: Python leaves the order of a set open, the
  model takes the catalogue's. The rename of the last lines ends a finished body.
\<close>

definition update_body :: "hub \<Rightarrow> db_file \<Rightarrow> parent_db list \<times> body_end" where
  "update_body h file =
     (case file of
        Unreadable \<Rightarrow> ([], Failed IOError)
      | Unparsable \<Rightarrow> ([], Failed ValueError)
      | Parsed parent_db \<Rightarrow>
          (if official_images h = [] then ([], Exited)
           else
             (case (if length (official_images h) > length parent_db
                    then discover_loop h
                           (remdups (filter (\<lambda>r. r \<notin> set (map fst parent_db)) (official_images h)))
                           (parent_db, [])
                    else ((parent_db, []), None)) of
                ((db1, ws1), Some e) \<Rightarrow> (ws1, Failed e)
              | ((db1, ws1), None) \<Rightarrow>
                  (case repositories_loop h (map fst db1) (db1, ws1) of
                     ((db2, ws2), Some e) \<Rightarrow> (ws2, Failed e)
                   | ((db2, ws2), None) \<Rightarrow> (ws2, Finished)))))"

text \<open>
  The function, lines 501 to 665: the body inside \<open>try\<close>, and the bare \<open>except\<close> that
  logs \<open>"Failed to read parent_db Json file"\<close> for every exception of the body.
\<close>

definition update_official_database :: "hub \<Rightarrow> db_file \<Rightarrow> run" where
  "update_official_database h file =
     (case update_body h file of
        (ws, Finished) \<Rightarrow> Returned \<lparr>db_writes = ws, renamed = True, failure_logged = None\<rparr>
      | (ws, Failed e) \<Rightarrow>
          Returned \<lparr>db_writes = ws, renamed = False, failure_logged = Some e\<rparr>
      | (ws, Exited) \<Rightarrow> Process_exit)"

section \<open>Duplicate resolver: \<open>populate_parent_db.verify_duplicates\<close>\<close>







subsection \<open>Vocabulary of the duplicate resolver's properties\<close>



section \<open>Vocabulary and examples for the synchronizer's properties\<close>

text \<open>
  The number of records of a list that do not raise the running maximum of \<open>last_updated\<close>,
  the maximum starting at \<open>m\<close>.
\<close>

fun non_raising :: "image list \<Rightarrow> int \<Rightarrow> nat" where
  "non_raising [] m = 0"
| "non_raising (img # images) m =
     (if last_updated img > m then non_raising images (last_updated img)
      else Suc (non_raising images m))"

definition stamped :: "int \<Rightarrow> image" where
  "stamped t = \<lparr>fs_layers = layer_a, image_tag = ''latest'', last_updated = t, created = 0\<rparr>"

text \<open>Thirty-one records, each updated later than the one before.\<close>

definition rising_images :: "image list" where
  "rising_images = map stamped [1 .. 31]"

text \<open>A record, thirty records that are older, and a last one that is the newest.\<close>

definition stale_images :: "image list" where
  "stale_images = stamped 100 # replicate 30 (stamped 50) @ [stamped 999]"

text \<open>The scenario of \<open>redis\<close>: the record of tag \<open>6\<close>, and what upstream reports.\<close>

definition redis_6 :: image where
  "redis_6 =
     \<lparr>fs_layers = ''aaa111222333'', image_tag = ''6'', last_updated = 100, created = 90\<rparr>"

definition redis_7 :: image where
  "redis_7 =
     \<lparr>fs_layers = ''aaa111222333444555666'', image_tag = ''7'', last_updated = 200,
      created = 190\<rparr>"

definition redis_stream :: "string \<Rightarrow> pull_item list" where
  "redis_stream t =
     (if t = ''7'' then [existing ''aaa111222333'', pulling ''444555666'', Line downloading]
      else if t = ''6'' then [pulling ''aaa111222333'', Line downloading]
      else [APIError ''404 Client Error: Not Found''])"

definition redis_hub :: hub where
  "redis_hub =
     \<lparr>official_images = [''redis''],
      repository_tags = (\<lambda>r. [''7'', ''6'']),
      tag_query = (\<lambda>r t. if t = ''7'' then Tag_object (Timestamp 200)
                          else if t = ''6'' then Tag_object (Timestamp 100) else No_tag_object),
      created_query = (\<lambda>r t. if t = ''7'' then Some 190 else if t = ''6'' then Some 90 else None),
      pull_streams = (\<lambda>r t retrial. redis_stream t)\<rparr>"

text \<open>The same registry when the creation-time lookup has no answer.\<close>

definition redis_hub_no_created :: hub where
  "redis_hub_no_created = redis_hub\<lparr>created_query := (\<lambda>r t. None)\<rparr>"


text \<open>
  The same registry when both tags name the image with the new layers.
\<close>

definition redis_hub_retagged :: hub where
  "redis_hub_retagged = redis_hub\<lparr>pull_streams := (\<lambda>r t retrial. redis_stream ''7'')\<rparr>"

text \<open>
  The same registry when the lookup of the tag \<open>7\<close> fails.
\<close>

definition redis_hub_no_tag_object :: hub where
  "redis_hub_no_tag_object =
     redis_hub\<lparr>tag_query := (\<lambda>r t. if t = ''6'' then Tag_object (Timestamp 100)
                                    else No_tag_object)\<rparr>"

subsection \<open>Vocabulary of the update pass\<close>

text \<open>
  What \<open>get_layers_image\<close> returns for a tag of the registry.
\<close>

definition extracted :: "hub \<Rightarrow> string \<Rightarrow> string \<Rightarrow> py_exception + string" where
  "extracted h repository t = get_layers_image repository t (pull_streams h repository t)"

text \<open>
  A record apart from its \<open>last_updated\<close> field, the only field that the pass rewrites
  in a record whose layers it finds again.
\<close>

definition unstamped :: "image \<Rightarrow> image" where
  "unstamped img = img\<lparr>last_updated := 0\<rparr>"

text \<open>
  A record that the pass appended for one of the tags \<open>P\<close>: it carries the tag, the
  layers extracted for it and the creation time looked up for it, and the tag object has
  a timestamp.
\<close>

fun has_timestamp :: "tag_object \<Rightarrow> bool" where
  "has_timestamp (Tag_object (Timestamp ut)) = True"
| "has_timestamp _ = False"

definition added_by :: "hub \<Rightarrow> string \<Rightarrow> string set \<Rightarrow> image \<Rightarrow> bool" where
  "added_by h repository P v \<longleftrightarrow>
     image_tag v \<in> P \<and>
     extracted h repository (image_tag v) = Inr (fs_layers v) \<and>
     has_timestamp (tag_query h repository (image_tag v)) \<and>
     created_query h repository (image_tag v) = Some (created v)"

text \<open>
  What holds of the variables of the pass after the tags \<open>P\<close>, when no reported tag
  of a stored record has changed its layers: the stored records are in place, the same
  apart from \<open>last_updated\<close>; the records after them were appended for tags of \<open>P\<close>;
  the layers are pairwise different; \<open>added_image_layers\<close> holds layers of tags of \<open>P\<close>.
\<close>

definition pass_invariant :: "hub \<Rightarrow> string \<Rightarrow> image list \<Rightarrow> string set \<Rightarrow> pass \<Rightarrow> bool" where
  "pass_invariant h repository images P st \<longleftrightarrow>
     take (length images) (map unstamped (repository_images st)) = map unstamped images \<and>
     (\<forall>v\<in>set (drop (length images) (map unstamped (repository_images st))).
        added_by h repository P v) \<and>
     distinct (map fs_layers (repository_images st)) \<and>
     (\<forall>l\<in>added_image_layers st. \<exists>u\<in>P. extracted h repository u = Inr l)"

section \<open>Examples for the duplicate resolver's properties\<close>






section \<open>Properties of the ancestry resolver\<close>

lemma latest_append: "latest (xs @ ys) q = latest ys (latest xs q)"
  by (simp add: latest_def)

lemma scan_images_latest:
  "scan_images p repo images q = latest (map (Pair repo) (filter (\<lambda>i. fs_layers i = p) images)) q"
proof (induction images arbitrary: q)
  case Nil
  then show ?case by (simp add: latest_def)
next
  case (Cons img images)
  show ?case
    by (simp add: Cons.IH latest_def owner_def)
qed

lemma scan_repositories_latest:
  "\<forall>e\<in>set entries. map_of base_db (fst e) = Some (snd e) \<Longrightarrow>
   scan_repositories base_db p (map fst entries) q = Inr (latest (hits p entries) q)"
proof (induction entries arbitrary: q)
  case Nil
  then show ?case by (simp add: hits_def latest_def)
next
  case (Cons e entries)
  have "hits p (e # entries) = map (Pair (fst e)) (filter (\<lambda>i. fs_layers i = p) (snd e)) @ hits p entries"
    by (simp add: hits_def)
  with Cons show ?case
    by (simp add: scan_images_latest latest_append)
qed

lemma retrieve_parent_latest:
  "\<forall>e\<in>set entries. map_of base_db (fst e) = Some (snd e) \<Longrightarrow>
   retrieve_parent base_db (map fst entries) cur ids q =
     Inr (latest (concat (map (\<lambda>p. hits p entries) (running cur ids))) q)"
proof (induction ids arbitrary: cur q)
  case Nil
  then show ?case by (simp add: latest_def)
next
  case (Cons i ids)
  then show ?case
    by (simp add: scan_repositories_latest latest_append)
qed

lemma index_of_None: "index_of x xs = None \<longleftrightarrow> x \<notin> set xs"
  by (induction xs) (auto split: option.splits)

lemma index_of_Some: "index_of x xs = Some i \<Longrightarrow> take i xs @ drop (Suc i) xs = remove1 x xs"
  by (induction xs arbitrary: i) (auto split: option.splits if_splits)

lemma index_of_Some_less: "index_of x xs = Some i \<Longrightarrow> i < length xs \<and> xs ! i = x"
  by (induction xs arbitrary: i) (auto split: option.splits if_splits)

lemma without_repository_eq:
  "without_repository r ks = (if r \<in> set ks then Some (remove1 r ks) else None)"
proof (cases "index_of r ks")
  case None
  moreover from None have "r \<notin> set ks" by (simp add: index_of_None)
  ultimately show ?thesis by (simp add: without_repository_def)
next
  case (Some i)
  moreover from Some have "r \<in> set ks" using index_of_None [of r ks] by auto
  moreover from Some have "take i ks @ drop (Suc i) ks = remove1 r ks" by (rule index_of_Some)
  ultimately show ?thesis by (simp add: without_repository_def)
qed

lemma remove1_filter_fst:
  "distinct (map fst db) \<Longrightarrow> remove1 r (map fst db) = map fst (filter (\<lambda>e. fst e \<noteq> r) db)"
proof (induction db)
  case Nil then show ?case by simp
next
  case (Cons e db)
  show ?case
  proof (cases "fst e = r")
    case True
    with Cons.prems have "r \<notin> fst ` set db" by auto
    then have "filter (\<lambda>e. fst e \<noteq> r) db = db"
      by (auto simp: filter_id_conv)
    with True show ?thesis by simp
  next
    case False
    with Cons show ?thesis by simp
  qed
qed

lemma candidate_repositories_eq:
  assumes "distinct (map fst db)"
  shows "candidate_repositories r db = map fst (candidates r db)"
proof (cases "r \<in> set (map fst db)")
  case True
  then show ?thesis
    using remove1_filter_fst [OF assms, of r]
    by (simp add: candidate_repositories_def without_repository_eq candidates_def)
next
  case False
  then have "filter (\<lambda>e. fst e \<noteq> r) db = db"
    by (auto simp: filter_id_conv)
  with False show ?thesis
    by (simp add: candidate_repositories_def without_repository_eq candidates_def)
qed

lemma candidates_lookup:
  "distinct (map fst db) \<Longrightarrow> \<forall>e\<in>set (candidates r db). map_of db (fst e) = Some (snd e)"
  by (auto simp: candidates_def)

lemma upt_1_Suc_Suc: "map f [1 ..< Suc (Suc n)] = f 1 # map (\<lambda>k. f (Suc k)) [1 ..< Suc n]"
proof -
  have "[1 ..< Suc (Suc n)] = 1 # [Suc 1 ..< Suc (Suc n)]"
    by (rule upt_conv_Cons) simp
  moreover have "[Suc 1 ..< Suc (Suc n)] = map Suc [1 ..< Suc n]"
    by (rule map_Suc_upt [symmetric])
  ultimately have "[1 ..< Suc (Suc n)] = 1 # map Suc [1 ..< Suc n]"
    by (simp only:)
  then show ?thesis
    by (simp only: list.map map_map comp_def)
qed

lemma ceil_div_step:
  assumes "0 < (n::nat)"
  shows "(n + 12 - 1) div 12 = Suc ((n - 12 + 12 - 1) div 12)"
proof (cases "12 \<le> n")
  case True
  then obtain m where "n = m + 12" using le_Suc_ex add.commute by metis
  then show ?thesis by simp
next
  case False
  with assms have "(n + 12 - 1) div 12 = 1" by simp
  moreover from False have "n - 12 = 0" by simp
  ultimately show ?thesis by simp
qed

lemma running_image_ids:
  "running cur (image_ids L) =
     map (\<lambda>k. cur @ take (image_id_length * k) L)
       [1 ..< Suc ((length L + image_id_length - 1) div image_id_length)]"
proof (induction L arbitrary: cur rule: image_ids.induct)
  case (1 L)
  show ?case
  proof (cases "L = []")
    case True
    have "image_ids [] = []" by (subst image_ids.simps) simp
    with True show ?thesis by (simp add: image_id_length_def)
  next
    case False
    define N' where "N' = (length (drop image_id_length L) + image_id_length - 1) div image_id_length"
    define x where "x = take image_id_length L"
    have "0 < length L" using False by simp
    then have N: "(length L + image_id_length - 1) div image_id_length = Suc N'"
      unfolding N'_def image_id_length_def length_drop by (rule ceil_div_step)
    have ids: "image_ids L = x # image_ids (drop image_id_length L)"
      unfolding x_def using False by (subst image_ids.simps) simp
    have tk: "x @ take (image_id_length * k) (drop image_id_length L)
               = take (image_id_length * Suc k) L" for k
      unfolding x_def by (simp only: take_add [symmetric] mult_Suc_right)
    have x1: "take (image_id_length * 1) L = x"
      unfolding x_def by simp
    have IH: "running (cur @ x) (image_ids (drop image_id_length L)) =
      map (\<lambda>k. (cur @ x) @ take (image_id_length * k) (drop image_id_length L)) [1 ..< Suc N']"
      unfolding N'_def by (rule "1.IH" [OF False])
    have "running cur (image_ids L) = (cur @ x) # running (cur @ x) (image_ids (drop image_id_length L))"
      by (simp only: ids running.simps)
    also have "\<dots> = (cur @ x) #
        map (\<lambda>k. cur @ take (image_id_length * Suc k) L) [1 ..< Suc N']"
      by (simp only: IH append_assoc tk)
    also have "\<dots> = map (\<lambda>k. cur @ take (image_id_length * k) L) [1 ..< Suc (Suc N')]"
      by (simp only: upt_1_Suc_Suc [of "\<lambda>k. cur @ take (image_id_length * k) L"] x1)
    finally show ?thesis by (simp only: N)
  qed
qed

lemma aligned_prefixes_running: "aligned_prefixes L = running [] (image_ids L)"
  by (simp only: running_image_ids aligned_prefixes_def append_Nil)

lemma prefix_index_bound:
  assumes "i < (n + 12 - 1) div 12"
  shows "12 * i < (n::nat)"
proof (rule ccontr)
  assume "\<not> 12 * i < n"
  then have "n + 12 - 1 \<le> 12 * i + 11" by simp
  then have "(n + 12 - 1) div 12 \<le> (12 * i + 11) div 12" by (rule div_le_mono)
  also have "(12 * i + 11) div 12 = i" by simp
  finally show False using assms by simp
qed

lemma aligned_prefixes_sorted:
  "sorted_wrt (\<lambda>a b. length a < length b) (aligned_prefixes L)"
proof -
  let ?N = "(length L + image_id_length - 1) div image_id_length"
  have "sorted_wrt (\<lambda>i j. length (take (image_id_length * i) L) < length (take (image_id_length * j) L))
          [1 ..< Suc ?N]"
  proof (rule sorted_wrt_mono_rel [of _ "(<)"])
    fix i j
    assume i: "i \<in> set [1 ..< Suc ?N]" and j: "j \<in> set [1 ..< Suc ?N]" and ij: "i < j"
    from j have "j < Suc ((length L + 12 - 1) div 12)" by (simp only: set_upt atLeastLessThan_iff image_id_length_def)
    with ij have "i < (length L + 12 - 1) div 12" by linarith
    then have "12 * i < length L" by (rule prefix_index_bound)
    with ij show "length (take (image_id_length * i) L) < length (take (image_id_length * j) L)"
      by (simp add: image_id_length_def)
  next
    show "sorted_wrt (<) [1 ..< Suc ?N]" by (rule sorted_wrt_upt)
  qed
  then show ?thesis
    by (simp only: aligned_prefixes_def sorted_wrt_map)
qed

lemma latest_longest:
  assumes srt: "sorted_wrt (\<lambda>a b. length a < length b) ps"
    and p: "p \<in> set ps" and hit: "g p \<noteq> []"
    and longer: "\<forall>q\<in>set ps. length p < length q \<longrightarrow> g q = []"
  shows "latest (concat (map g ps)) None = Some (owner (last (g p)))"
proof -
  from p obtain xs ys where ps: "ps = xs @ p # ys" by (auto dest: split_list)
  with srt have "\<forall>y\<in>set ys. length p < length y"
    by (simp add: sorted_wrt_append)
  with longer ps have "\<forall>y\<in>set ys. g y = []" by simp
  then have "concat (map g ys) = []" by simp
  with ps have "concat (map g ps) = concat (map g xs) @ g p" by simp
  with hit show ?thesis by (simp add: latest_def)
qed

lemma latest_none:
  "\<forall>p\<in>set ps. g p = [] \<Longrightarrow> latest (concat (map g ps)) None = None"
  by (simp add: latest_def)

lemma get_image_parent_latest:
  assumes "distinct (map fst base_db)" and "db_type = ''official'' \<or> db_type = ''verified''"
  shows "get_image_parent r L db_type (Parsed base_db) =
    Inr (ParentDict (latest (concat (map (\<lambda>p. hits p (candidates r base_db)) (aligned_prefixes L))) None))"
proof -
  have "retrieve_parent base_db (map fst (candidates r base_db)) [] (image_ids L) None =
      Inr (latest (concat (map (\<lambda>p. hits p (candidates r base_db)) (running [] (image_ids L)))) None)"
    by (rule retrieve_parent_latest) (rule candidates_lookup [OF assms(1)])
  then show ?thesis
    using assms(2)
    by (auto simp add: get_image_parent_def candidate_repositories_eq [OF assms(1)]
        aligned_prefixes_running)
qed

lemma hits_mem:
  "h \<in> set (hits p entries) \<longleftrightarrow>
     (\<exists>e\<in>set entries. fst h = fst e \<and> snd h \<in> set (snd e) \<and> fs_layers (snd h) = p)"
  by (cases h) (auto simp: hits_def)

text \<open>
  Claim C1, as amended. For a database with distinct keys and a database type the function
  knows: when no token-aligned prefix of the target equals the layers of a record of
  another repository, the result is the empty dictionary; otherwise the result is the
  repository and tag of a record of another repository whose layers equal the longest
  matched token-aligned prefix. For records \<open>A\<close> and \<open>B\<close> of two different candidate
  repositories with the layers of \<open>A\<close> a prefix of those of \<open>B\<close>: when the layers of \<open>B\<close>
  are a token-aligned prefix of the target, no longer token-aligned prefix is matched, and
  \<open>B\<close> is the last record in scan order with these layers, the owner of \<open>B\<close> is returned
  and not that of \<open>A\<close>.
\<close>

theorem get_image_parent_longest_prefix:
  assumes dist: "distinct (map fst base_db)"
    and ty: "db_type = ''official'' \<or> db_type = ''verified''"
  shows
    "((\<forall>p\<in>set (aligned_prefixes L). hits p (candidates r base_db) = []) \<longrightarrow>
        get_image_parent r L db_type (Parsed base_db) = Inr (ParentDict None))
     \<and> (\<forall>p\<in>set (aligned_prefixes L).
          hits p (candidates r base_db) \<noteq> [] \<and>
          (\<forall>q\<in>set (aligned_prefixes L). length p < length q \<longrightarrow> hits q (candidates r base_db) = [])
          \<longrightarrow> (\<exists>e\<in>set base_db. \<exists>img\<in>set (snd e). fst e \<noteq> r \<and> fs_layers img = p \<and>
                 get_image_parent r L db_type (Parsed base_db) =
                   Inr (ParentDict (Some \<lparr>name = fst e, tag = image_tag img\<rparr>))))
     \<and> (\<forall>ra imgs_a rb imgs_b A B.
          (ra, imgs_a) \<in> set base_db \<and> (rb, imgs_b) \<in> set base_db \<and>
          ra \<noteq> rb \<and> ra \<noteq> r \<and> rb \<noteq> r \<and> A \<in> set imgs_a \<and> B \<in> set imgs_b \<and>
          prefix (fs_layers A) (fs_layers B) \<and> fs_layers B \<in> set (aligned_prefixes L) \<and>
          (\<forall>q\<in>set (aligned_prefixes L).
              length (fs_layers B) < length q \<longrightarrow> hits q (candidates r base_db) = []) \<and>
          last (hits (fs_layers B) (candidates r base_db)) = (rb, B)
          \<longrightarrow> get_image_parent r L db_type (Parsed base_db) =
                 Inr (ParentDict (Some \<lparr>name = rb, tag = image_tag B\<rparr>)) \<and>
              get_image_parent r L db_type (Parsed base_db) \<noteq>
                 Inr (ParentDict (Some \<lparr>name = ra, tag = image_tag A\<rparr>)))"
proof (intro conjI impI ballI allI)
  let ?C = "candidates r base_db"
  let ?g = "\<lambda>p. hits p ?C"
  note eq = get_image_parent_latest [OF dist ty, of r L]
  {
    assume "\<forall>p\<in>set (aligned_prefixes L). hits p ?C = []"
    then show "get_image_parent r L db_type (Parsed base_db) = Inr (ParentDict None)"
      by (simp only: eq latest_none)
  }
  {
    fix p
    assume p: "p \<in> set (aligned_prefixes L)"
      and h: "hits p ?C \<noteq> [] \<and>
        (\<forall>q\<in>set (aligned_prefixes L). length p < length q \<longrightarrow> hits q ?C = [])"
    from h have ne: "?g p \<noteq> []" and longer: "\<forall>q\<in>set (aligned_prefixes L). length p < length q \<longrightarrow> ?g q = []"
      by simp_all
    have res: "get_image_parent r L db_type (Parsed base_db) =
        Inr (ParentDict (Some (owner (last (hits p ?C)))))"
      using latest_longest [of "aligned_prefixes L" p ?g, OF aligned_prefixes_sorted p ne longer]
      by (simp only: eq)
    from ne have "last (hits p ?C) \<in> set (hits p ?C)" by (rule last_in_set)
    then obtain e where e: "e \<in> set ?C" "fst (last (hits p ?C)) = fst e"
      "snd (last (hits p ?C)) \<in> set (snd e)" "fs_layers (snd (last (hits p ?C))) = p"
      unfolding hits_mem by blast
    from e(1) have "e \<in> set base_db" "fst e \<noteq> r" by (simp_all add: candidates_def)
    with e res show "\<exists>e\<in>set base_db. \<exists>img\<in>set (snd e). fst e \<noteq> r \<and> fs_layers img = p \<and>
        get_image_parent r L db_type (Parsed base_db) =
          Inr (ParentDict (Some \<lparr>name = fst e, tag = image_tag img\<rparr>))"
      by (auto simp: owner_def)
  }
  {
    fix ra imgs_a rb imgs_b A B
    assume h: "(ra, imgs_a) \<in> set base_db \<and> (rb, imgs_b) \<in> set base_db \<and>
          ra \<noteq> rb \<and> ra \<noteq> r \<and> rb \<noteq> r \<and> A \<in> set imgs_a \<and> B \<in> set imgs_b \<and>
          prefix (fs_layers A) (fs_layers B) \<and> fs_layers B \<in> set (aligned_prefixes L) \<and>
          (\<forall>q\<in>set (aligned_prefixes L).
              length (fs_layers B) < length q \<longrightarrow> hits q ?C = []) \<and>
          last (hits (fs_layers B) ?C) = (rb, B)"
    then have B: "(rb, imgs_b) \<in> set base_db" "rb \<noteq> r" "B \<in> set imgs_b" and ab: "ra \<noteq> rb"
      and p: "fs_layers B \<in> set (aligned_prefixes L)"
      and longer: "\<forall>q\<in>set (aligned_prefixes L). length (fs_layers B) < length q \<longrightarrow> ?g q = []"
      and lst: "last (hits (fs_layers B) ?C) = (rb, B)"
      by simp_all
    from B have "(rb, imgs_b) \<in> set ?C" by (simp add: candidates_def)
    with B(3) have "(rb, B) \<in> set (hits (fs_layers B) ?C)"
      unfolding hits_mem by force
    then have ne: "?g (fs_layers B) \<noteq> []" by auto
    have res: "get_image_parent r L db_type (Parsed base_db) =
        Inr (ParentDict (Some (owner (last (hits (fs_layers B) ?C)))))"
      using latest_longest [of "aligned_prefixes L" "fs_layers B" ?g,
          OF aligned_prefixes_sorted p ne longer]
      by (simp only: eq)
    then show "get_image_parent r L db_type (Parsed base_db) =
        Inr (ParentDict (Some \<lparr>name = rb, tag = image_tag B\<rparr>))"
      by (simp add: lst owner_def)
    with ab show "get_image_parent r L db_type (Parsed base_db) \<noteq>
        Inr (ParentDict (Some \<lparr>name = ra, tag = image_tag A\<rparr>))"
      by simp
  }
qed

text \<open>The chain database: the owner of \<open>python\<close>'s record is returned for \<open>app\<close>.\<close>

theorem get_image_parent_longest_prefix_witness:
  "distinct (map fst chain_db) \<and>
   (''debian'', [debian_10]) \<in> set chain_db \<and> (''python'', [python_38]) \<in> set chain_db \<and>
   prefix (fs_layers debian_10) (fs_layers python_38) \<and>
   prefix (fs_layers python_38) (layer_a @ layer_b @ layer_c) \<and>
   get_image_parent ''app'' (layer_a @ layer_b @ layer_c) ''official'' (Parsed chain_db) =
     Inr (ParentDict (Some \<lparr>name = ''python'', tag = ''3.8''\<rparr>))"
proof -
  have d: "distinct (map fst chain_db)" by code_simp
  have ty: "''official'' = ''official'' \<or> ''official'' = ''verified''" by simp
  have prem:
    "(''debian'', [debian_10]) \<in> set chain_db \<and> (''python'', [python_38]) \<in> set chain_db \<and>
     ''debian'' \<noteq> ''python'' \<and> ''debian'' \<noteq> ''app'' \<and> ''python'' \<noteq> ''app'' \<and>
     debian_10 \<in> set [debian_10] \<and> python_38 \<in> set [python_38] \<and>
     prefix (fs_layers debian_10) (fs_layers python_38) \<and>
     fs_layers python_38 \<in> set (aligned_prefixes (layer_a @ layer_b @ layer_c)) \<and>
     (\<forall>q\<in>set (aligned_prefixes (layer_a @ layer_b @ layer_c)).
        length (fs_layers python_38) < length q \<longrightarrow> hits q (candidates ''app'' chain_db) = []) \<and>
     last (hits (fs_layers python_38) (candidates ''app'' chain_db)) = (''python'', python_38)"
    by code_simp
  have res: "get_image_parent ''app'' (layer_a @ layer_b @ layer_c) ''official'' (Parsed chain_db) =
      Inr (ParentDict (Some \<lparr>name = ''python'', tag = image_tag python_38\<rparr>))"
    using get_image_parent_longest_prefix [OF d ty, of "layer_a @ layer_b @ layer_c" "''app''",
        THEN conjunct2, THEN conjunct2, rule_format, OF prem]
    by (rule conjunct1)
  have tg: "image_tag python_38 = ''3.8''" by code_simp
  have rest: "(''debian'', [debian_10]) \<in> set chain_db \<and> (''python'', [python_38]) \<in> set chain_db \<and>
     prefix (fs_layers debian_10) (fs_layers python_38) \<and>
     prefix (fs_layers python_38) (layer_a @ layer_b @ layer_c)"
    by code_simp
  from d rest res show ?thesis by (simp only: tg simp_thms)
qed

text \<open>
  Claim C1 as stated fails: in the database with \<open>pypy\<close>, the records of \<open>debian\<close> and
  \<open>python\<close> lie in different candidate repositories, the first's layers are a prefix of
  the second's, both are prefixes of the target and no longer prefix is matched, yet the
  owner returned is \<open>pypy\<close>'s, scanned after \<open>python\<close>'s with the same layers.
\<close>

theorem get_image_parent_longest_prefix_counterexample:
  "(''debian'', [debian_10]) \<in> set tie_db \<and> (''python'', [python_38]) \<in> set tie_db \<and>
   ''debian'' \<noteq> ''python'' \<and> ''debian'' \<noteq> ''app'' \<and> ''python'' \<noteq> ''app'' \<and>
   prefix (fs_layers debian_10) (fs_layers python_38) \<and>
   prefix (fs_layers python_38) (layer_a @ layer_b @ layer_c) \<and>
   fs_layers python_38 \<in> set (aligned_prefixes (layer_a @ layer_b @ layer_c)) \<and>
   hits (layer_a @ layer_b @ layer_c) (candidates ''app'' tie_db) = [] \<and>
   get_image_parent ''app'' (layer_a @ layer_b @ layer_c) ''official'' (Parsed tie_db) =
     Inr (ParentDict (Some \<lparr>name = ''pypy'', tag = ''3''\<rparr>)) \<and>
   get_image_parent ''app'' (layer_a @ layer_b @ layer_c) ''official'' (Parsed tie_db) \<noteq>
     Inr (ParentDict (Some \<lparr>name = ''python'', tag = image_tag python_38\<rparr>))"
  by code_simp





text \<open>
  Claim C10. The token split of the empty layer string is empty, so the walk makes no
  iteration and returns its initial empty answer, whatever the database and the list of
  repositories are: no record is read, and even the unbound \<open>repositories\<close> left by a
  parse failure is never touched.
\<close>

theorem get_image_parent_empty_target:
  "image_ids [] = [] \<and>
   retrieve_parent base_db repositories [] (image_ids []) None = Inr None \<and>
   get_image_parent r [] ''official'' (Parsed base_db) = Inr (ParentDict None) \<and>
   get_image_parent r [] ''verified'' (Parsed base_db) = Inr (ParentDict None) \<and>
   get_image_parent r [] ''official'' Unparsable = Inr (ParentDict None) \<and>
   get_image_parent r [] ''verified'' Unparsable = Inr (ParentDict None)"
proof -
  have ids: "image_ids [] = []" by (subst image_ids.simps) simp
  then show ?thesis by (simp add: get_image_parent_def)
qed

text \<open>The chain database with an empty target.\<close>

theorem get_image_parent_empty_target_witness:
  "get_image_parent ''app'' [] ''official'' (Parsed chain_db) = Inr (ParentDict None)"
  using get_image_parent_empty_target [of chain_db "[]" "''app''"] by (rule conjunct2 [THEN conjunct2, THEN conjunct1])

section \<open>Properties of the layer extractor\<close>

lemma retrial_range: "[1 ..< retrials] = [1, 2, 3, 4]"
  by code_simp

lemma tokens_Nil: "tokens [] = []"
  by (simp add: tokens_def)

lemma tokens_Cons: "tokens (x # xs) = token x @ tokens xs"
  by (simp add: tokens_def)

lemma pull_loop_progress:
  "\<forall>x\<in>set pre. progress_item x \<Longrightarrow>
   pull_loop repo_name (pre @ rest) ids = pull_loop repo_name rest (ids @ tokens pre)"
proof (induction pre arbitrary: ids)
  case Nil
  then show ?case by (simp add: tokens_Nil)
next
  case (Cons x pre)
  from Cons.prems have x: "progress_item x" and pre: "\<forall>x\<in>set pre. progress_item x"
    by simp_all
  from x obtain l where l: "x = Line l" by (cases x) simp_all
  show ?case
  proof (cases "layer_status l")
    case True
    with x l obtain i where i: "line_id l = Some i" by auto
    from True have "status l = Some ''Pulling fs layer'' \<or> status l = Some ''Already exists''"
      by (simp add: layer_status_def)
    with i True show ?thesis
      by (simp add: l tokens_Cons Cons.IH [OF pre])
  next
    case False
    then have n: "\<not> (status l = Some ''Pulling fs layer'' \<or> status l = Some ''Already exists'')"
      by (simp add: layer_status_def)
    from x l False have "\<not> truthy (error l)" "status l \<noteq> Some ''Downloading''" by simp_all
    with n False show ?thesis
      by (simp add: l tokens_Cons Cons.IH [OF pre])
  qed
qed

lemma pull_loop_downloading:
  "downloading_line d \<Longrightarrow> pull_loop repo_name (Line d # post) ids = (ids, Downloading_seen)"
  by (simp add: downloading_line_def)

lemma pull_loop_outcome:
  "snd (pull_loop repo_name items ids) = snd (pull_loop repo_name items ids')"
proof (induction items arbitrary: ids ids')
  case Nil
  show ?case by simp
next
  case (Cons x items)
  show ?case
  proof (cases x)
    case (Line l)
    show ?thesis
      using Cons.IH by (auto simp: Line split: option.splits)
  qed simp_all
qed

lemma retry_loop_success:
  assumes "\<not> is_retrieved st"
    and "pull_loop repo_name (pulls retrial) (fs_layer_ids st) = (ids, Downloading_seen)"
  shows "retry_loop repo_name pulls (retrial # rest) st =
     Inr (st\<lparr>fs_layer_ids := ids, is_retrieved := True, attempts_made := attempts_made st + 1\<rparr>)"
  using assms by (cases rest) simp_all

lemma retry_loop_transient:
  assumes nr: "\<not> is_retrieved st"
    and tr: "fails_transiently repo_name (pulls retrial)"
  shows "retry_loop repo_name pulls (retrial # rest) st =
     retry_loop repo_name pulls rest
       (st\<lparr>fs_layer_ids := [], attempts_made := attempts_made st + 1,
           sleeps := sleeps st @ (if retrial < retrials - 1 then [retrials_wait_time] else [])\<rparr>)"
proof -
  obtain ids out where po: "pull_loop repo_name (pulls retrial) (fs_layer_ids st) = (ids, out)"
    by (cases "pull_loop repo_name (pulls retrial) (fs_layer_ids st)")
  have "snd (pull_loop repo_name (pulls retrial) []) = out"
    using pull_loop_outcome [of repo_name "pulls retrial" "[]" "fs_layer_ids st"] po by simp
  with tr obtain msg where out: "out = Raised_APIError msg"
    and msg: "\<not> re_search ''cannot be used on this platform'' msg" "\<not> re_search ''docker login'' msg"
    by (auto simp: fails_transiently_def split: pull_outcome.splits)
  show ?thesis
    using nr msg by (simp add: po out Let_def)
qed

text \<open>
  Claim C2. The stream of the first attempt consists of progress events \<open>pre\<close>, then the
  first event with status \<open>Downloading\<close>, then anything. The loop over the stream
  appends the identifier of each event of \<open>pre\<close> whose status is \<open>Pulling fs layer\<close> or
  \<open>Already exists\<close>, in order, and stops at the \<open>Downloading\<close> event; without that event
  it appends the same identifiers and reaches the end of the stream. The function returns
  exactly the identifiers announced before the \<open>Downloading\<close> event, after one attempt and
  no sleep: the events after it and the streams of later attempts do not matter.
\<close>

theorem get_layers_image_stops_at_downloading:
  assumes pre: "\<forall>x\<in>set pre. progress_item x"
    and d: "downloading_line d"
    and first: "pulls 1 = pre @ Line d # post"
  shows "pull_loop repo_name (pre @ Line d # post) ids = (ids @ tokens pre, Downloading_seen) \<and>
         pull_loop repo_name pre ids = (ids @ tokens pre, Stream_ended) \<and>
         get_layers_image repo_name tag_name pulls = Inr (tokens pre) \<and>
         get_layers_image_run repo_name tag_name pulls =
           Inr \<lparr>fs_layer_ids = tokens pre, is_retrieved = True, attempts_made = 1, sleeps = []\<rparr>"
proof -
  have a: "pull_loop repo_name (pre @ Line d # post) ids = (ids @ tokens pre, Downloading_seen)" for ids
    by (simp only: pull_loop_progress [OF pre] pull_loop_downloading [OF d])
  have b: "pull_loop repo_name pre ids = (ids @ tokens pre, Stream_ended)"
    using pull_loop_progress [OF pre, of repo_name "[]" ids] by simp
  let ?st = "\<lparr>fs_layer_ids = [], is_retrieved = False, attempts_made = 0, sleeps = []\<rparr>"
  have "retry_loop repo_name pulls (1 # [2, 3, 4]) ?st =
      Inr (?st\<lparr>fs_layer_ids := tokens pre, is_retrieved := True,
        attempts_made := attempts_made ?st + 1\<rparr>)"
    by (rule retry_loop_success) (simp_all add: first [unfolded One_nat_def] a)
  then have c: "get_layers_image_run repo_name tag_name pulls =
      Inr \<lparr>fs_layer_ids = tokens pre, is_retrieved = True, attempts_made = 1, sleeps = []\<rparr>"
    unfolding get_layers_image_run_def retrial_range by (simp del: retry_loop.simps)
  then have "get_layers_image repo_name tag_name pulls = Inr (tokens pre)"
    by (simp add: get_layers_image_def)
  with a b c show ?thesis by simp
qed

text \<open>
  A stream for \<open>redis:7\<close>: two layers, the transfer begins, a third layer and an error
  follow and are never read.
\<close>

theorem get_layers_image_stops_at_downloading_witness:
  "get_layers_image ''redis'' ''7'' good_pulls = Inr (layer_a @ layer_b) \<and>
   get_layers_image_run ''redis'' ''7'' good_pulls =
     Inr \<lparr>fs_layer_ids = layer_a @ layer_b, is_retrieved = True, attempts_made = 1, sleeps = []\<rparr>"
proof -
  let ?pre = "[Line \<lparr>status = Some ''Pulling from library/redis'', line_id = Some ''7'', error = None\<rparr>,
      existing layer_a, pulling layer_b]"
  let ?post = "[pulling layer_c, APIError ''500 Server Error'']"
  have pre: "\<forall>x\<in>set ?pre. progress_item x" by code_simp
  have d: "downloading_line downloading" by code_simp
  have first: "good_pulls 1 = ?pre @ Line downloading # ?post"
    by (simp add: good_pulls_def good_stream_def)
  have tk: "tokens ?pre = layer_a @ layer_b" by code_simp
  note r = get_layers_image_stops_at_downloading
    [where pre = ?pre and d = downloading and post = ?post and pulls = good_pulls
       and repo_name = "''redis''" and tag_name = "''7''" and ids = "[]", OF pre d first]
  from r [unfolded tk] show ?thesis by (simp only: simp_thms)
qed

lemma retry_loop_failures:
  assumes "\<forall>r\<in>set rs. fails_transiently repo_name (pulls r) \<and> r < retrials - 1"
  shows "retry_loop repo_name pulls (rs @ rest)
           \<lparr>fs_layer_ids = ids, is_retrieved = False, attempts_made = j, sleeps = ss\<rparr> =
         retry_loop repo_name pulls rest
           \<lparr>fs_layer_ids = (if rs = [] then ids else []), is_retrieved = False,
            attempts_made = j + length rs,
            sleeps = ss @ replicate (length rs) retrials_wait_time\<rparr>"
  using assms
proof (induction rs arbitrary: ids j ss)
  case Nil
  show ?case by simp
next
  case (Cons r rs)
  from Cons.prems have tr: "fails_transiently repo_name (pulls r)" and lt: "r < retrials - 1"
    and rest: "\<forall>r\<in>set rs. fails_transiently repo_name (pulls r) \<and> r < retrials - 1"
    by simp_all
  have "retry_loop repo_name pulls ((r # rs) @ rest)
           \<lparr>fs_layer_ids = ids, is_retrieved = False, attempts_made = j, sleeps = ss\<rparr> =
        retry_loop repo_name pulls (rs @ rest)
           \<lparr>fs_layer_ids = [], is_retrieved = False, attempts_made = j + 1,
            sleeps = ss @ [retrials_wait_time]\<rparr>"
    using lt
    by (simp add: retry_loop_transient [where pulls = pulls and retrial = r, OF _ tr]
        del: retry_loop.simps)
  also have "\<dots> = retry_loop repo_name pulls rest
           \<lparr>fs_layer_ids = (if rs = [] then [] else []), is_retrieved = False,
            attempts_made = (j + 1) + length rs,
            sleeps = (ss @ [retrials_wait_time]) @ replicate (length rs) retrials_wait_time\<rparr>"
    by (rule Cons.IH [OF rest])
  finally show ?case
    by (simp add: replicate_append_same del: retry_loop.simps)
qed

lemma retry_loop_success_step:
  assumes pre: "\<forall>x\<in>set pre. progress_item x"
    and d: "downloading_line d"
    and str: "pulls retrial = pre @ Line d # post"
  shows "retry_loop repo_name pulls (retrial # rest)
           \<lparr>fs_layer_ids = [], is_retrieved = False, attempts_made = j, sleeps = ss\<rparr> =
         Inr \<lparr>fs_layer_ids = tokens pre, is_retrieved = True, attempts_made = Suc j, sleeps = ss\<rparr>"
proof -
  have "pull_loop repo_name (pulls retrial) [] = (tokens pre, Downloading_seen)"
    by (simp only: str pull_loop_progress [OF pre] pull_loop_downloading [OF d] append_Nil)
  then show ?thesis
    by (subst retry_loop_success [where ids = "tokens pre"]) simp_all
qed

lemma retry_loop_last_failure:
  assumes tr: "fails_transiently repo_name (pulls retrial)" and ge: "\<not> retrial < retrials - 1"
  shows "retry_loop repo_name pulls [retrial]
           \<lparr>fs_layer_ids = ids, is_retrieved = False, attempts_made = j, sleeps = ss\<rparr> =
         Inr \<lparr>fs_layer_ids = [], is_retrieved = False, attempts_made = Suc j, sleeps = ss\<rparr>"
  using ge
  by (simp add: retry_loop_transient [where pulls = pulls and retrial = retrial, OF _ tr]
      del: retry_loop.simps) simp

lemma retrial_split:
  assumes "1 \<le> k" and "k < retrials"
  shows "[1 ..< retrials] = [1 ..< k] @ k # [Suc k ..< retrials]"
proof -
  from assms have "[1 ..< retrials] = [1 ..< k] @ [k ..< retrials]"
    using upt_add_eq_append [of 1 k "retrials - k"] by simp
  moreover from assms have "[k ..< retrials] = k # [Suc k ..< retrials]"
    by (simp add: upt_conv_Cons)
  ultimately show ?thesis by simp
qed

lemma all_fail_run:
  assumes f: "\<forall>i\<in>{1..4}. fails_transiently repo_name (pulls i)"
  shows "get_layers_image_run repo_name tag_name pulls =
     Inr \<lparr>fs_layer_ids = [], is_retrieved = False, attempts_made = 4,
          sleeps = replicate 3 retrials_wait_time\<rparr>"
proof -
  have sp: "[1 ..< retrials] = [1 ..< 4] @ 4 # [Suc 4 ..< retrials]"
    by (rule retrial_split) (simp_all add: retrials_def)
  have e: "[Suc 4 ..< retrials] = []" by (simp add: retrials_def)
  have fs: "\<forall>r\<in>set [1 ..< 4]. fails_transiently repo_name (pulls r) \<and> r < retrials - 1"
    using f by (simp add: retrials_def)
  from f have f4: "fails_transiently repo_name (pulls 4)" by simp
  have ne: "[1 ..< 4] \<noteq> ([]::nat list)" by simp
  have len: "length [1 ..< (4::nat)] = 3" by simp
  have "get_layers_image_run repo_name tag_name pulls =
      retry_loop repo_name pulls ([1 ..< 4] @ [4])
        \<lparr>fs_layer_ids = [], is_retrieved = False, attempts_made = 0, sleeps = []\<rparr>"
    unfolding get_layers_image_run_def sp e ..
  also have "\<dots> = retry_loop repo_name pulls [4]
        \<lparr>fs_layer_ids = [], is_retrieved = False, attempts_made = 3,
         sleeps = replicate 3 retrials_wait_time\<rparr>"
    unfolding retry_loop_failures [OF fs] len using ne by simp
  also have "\<dots> = Inr \<lparr>fs_layer_ids = [], is_retrieved = False, attempts_made = Suc 3,
         sleeps = replicate 3 retrials_wait_time\<rparr>"
    by (rule retry_loop_last_failure [where pulls = pulls and retrial = 4, OF f4])
      (simp add: retrials_def)
  finally show ?thesis by simp
qed

lemma kth_succeeds_run:
  assumes k: "k \<in> {1..4}"
    and f: "\<forall>i\<in>{1..<k}. fails_transiently repo_name (pulls i)"
    and pre: "\<forall>x\<in>set pre. progress_item x"
    and d: "downloading_line d"
    and str: "pulls k = pre @ Line d # post"
  shows "get_layers_image_run repo_name tag_name pulls =
     Inr \<lparr>fs_layer_ids = tokens pre, is_retrieved = True, attempts_made = k,
          sleeps = replicate (k - 1) retrials_wait_time\<rparr>"
proof -
  have sp: "[1 ..< retrials] = [1 ..< k] @ k # [Suc k ..< retrials]"
    by (rule retrial_split) (use k in \<open>simp_all add: retrials_def\<close>)
  have fs: "\<forall>r\<in>set [1 ..< k]. fails_transiently repo_name (pulls r) \<and> r < retrials - 1"
    using f k by (simp add: retrials_def)
  have len: "length [1 ..< k] = k - 1" by simp
  have "get_layers_image_run repo_name tag_name pulls =
      retry_loop repo_name pulls ([1 ..< k] @ k # [Suc k ..< retrials])
        \<lparr>fs_layer_ids = [], is_retrieved = False, attempts_made = 0, sleeps = []\<rparr>"
    unfolding get_layers_image_run_def sp ..
  also have "\<dots> = retry_loop repo_name pulls (k # [Suc k ..< retrials])
        \<lparr>fs_layer_ids = [], is_retrieved = False, attempts_made = k - 1,
         sleeps = replicate (k - 1) retrials_wait_time\<rparr>"
    unfolding retry_loop_failures [OF fs] len by simp
  also have "\<dots> = Inr \<lparr>fs_layer_ids = tokens pre, is_retrieved = True,
         attempts_made = Suc (k - 1), sleeps = replicate (k - 1) retrials_wait_time\<rparr>"
    by (rule retry_loop_success_step [where pulls = pulls and retrial = k, OF pre d str])
  finally show ?thesis using k by simp
qed

lemma get_layers_image_of_run:
  "get_layers_image_run repo_name tag_name pulls = Inr st \<Longrightarrow>
   get_layers_image repo_name tag_name pulls = Inr (fs_layer_ids st)"
  by (simp add: get_layers_image_def)

text \<open>
  Claim C4, as amended. The budget is four attempts (\<open>range(1, retrials)\<close> with
  \<open>retrials = 5\<close>: a first attempt and three retries). When all four attempts fail
  transiently, the function returns the empty string after four attempts and three sleeps
  of 30 seconds. When the attempts before the \<open>k\<close>-th fail transiently and the \<open>k\<close>-th
  stream reaches its \<open>Downloading\<close> event, the function returns the identifiers of that
  stream alone (what earlier attempts accumulated is discarded), after \<open>k\<close> attempts and
  \<open>k - 1\<close> sleeps of 30 seconds.
\<close>

theorem get_layers_image_retries_transient_failures:
  "((\<forall>i\<in>{1..4}. fails_transiently repo_name (pulls i)) \<longrightarrow>
      get_layers_image repo_name tag_name pulls = Inr [] \<and>
      get_layers_image_run repo_name tag_name pulls =
        Inr \<lparr>fs_layer_ids = [], is_retrieved = False, attempts_made = 4,
             sleeps = [30, 30, 30]\<rparr>)
   \<and> (\<forall>k\<in>{1..4}.
        (\<forall>i\<in>{1..<k}. fails_transiently repo_name (pulls i)) \<and>
        (\<forall>x\<in>set pre. progress_item x) \<and> downloading_line d \<and>
        pulls k = pre @ Line d # post \<longrightarrow>
        get_layers_image repo_name tag_name pulls = Inr (tokens pre) \<and>
        get_layers_image_run repo_name tag_name pulls =
          Inr \<lparr>fs_layer_ids = tokens pre, is_retrieved = True, attempts_made = k,
               sleeps = replicate (k - 1) 30\<rparr>)"
proof (intro conjI impI ballI)
  have w: "retrials_wait_time = 30" by (simp add: retrials_wait_time_def)
  have r3: "replicate 3 (30::nat) = [30, 30, 30]" by (simp add: numeral_3_eq_3)
  {
    assume f: "\<forall>i\<in>{1..4}. fails_transiently repo_name (pulls i)"
    from all_fail_run [OF f, of tag_name]
    show run: "get_layers_image_run repo_name tag_name pulls =
        Inr \<lparr>fs_layer_ids = [], is_retrieved = False, attempts_made = 4,
             sleeps = [30, 30, 30]\<rparr>"
      by (simp only: w r3)
    from get_layers_image_of_run [OF run]
    show "get_layers_image repo_name tag_name pulls = Inr []" by simp
  }
  {
    fix k
    assume k: "k \<in> {1..4}"
      and h: "(\<forall>i\<in>{1..<k}. fails_transiently repo_name (pulls i)) \<and>
        (\<forall>x\<in>set pre. progress_item x) \<and> downloading_line d \<and>
        pulls k = pre @ Line d # post"
    from h have f: "\<forall>i\<in>{1..<k}. fails_transiently repo_name (pulls i)"
      and pre: "\<forall>x\<in>set pre. progress_item x" and d: "downloading_line d"
      and str: "pulls k = pre @ Line d # post" by simp_all
    from kth_succeeds_run [where pulls = pulls, OF k f pre d str, of tag_name]
    show run: "get_layers_image_run repo_name tag_name pulls =
        Inr \<lparr>fs_layer_ids = tokens pre, is_retrieved = True, attempts_made = k,
             sleeps = replicate (k - 1) 30\<rparr>"
      by (simp only: w)
    from get_layers_image_of_run [OF run]
    show "get_layers_image repo_name tag_name pulls = Inr (tokens pre)" by simp
  }
qed

text \<open>
  Four server errors give the empty string; two server errors and a good third attempt
  give the layers of the third.
\<close>

theorem get_layers_image_retries_transient_failures_witness:
  "get_layers_image ''redis'' ''7'' failing_pulls = Inr [] \<and>
   get_layers_image_run ''redis'' ''7'' failing_pulls =
     Inr \<lparr>fs_layer_ids = [], is_retrieved = False, attempts_made = 4, sleeps = [30, 30, 30]\<rparr> \<and>
   get_layers_image ''redis'' ''7'' third_succeeds_pulls = Inr (layer_a @ layer_b) \<and>
   get_layers_image_run ''redis'' ''7'' third_succeeds_pulls =
     Inr \<lparr>fs_layer_ids = layer_a @ layer_b, is_retrieved = True, attempts_made = 3,
          sleeps = [30, 30]\<rparr>"
proof -
  let ?pre = "[Line \<lparr>status = Some ''Pulling from library/redis'', line_id = Some ''7'', error = None\<rparr>,
      existing layer_a, pulling layer_b]"
  let ?post = "[pulling layer_c, APIError ''500 Server Error'']"
  have ft: "fails_transiently ''redis'' server_error_stream" by code_simp
  then have f1: "\<forall>i\<in>{1..4}. fails_transiently ''redis'' (failing_pulls i)"
    by (simp add: failing_pulls_def)
  from ft have f2: "\<forall>i\<in>{1..<3}. fails_transiently ''redis'' (third_succeeds_pulls i)"
    by (simp add: third_succeeds_pulls_def)
  have k: "(3::nat) \<in> {1..4}" by simp
  have pre: "\<forall>x\<in>set ?pre. progress_item x" by code_simp
  have d: "downloading_line downloading" by code_simp
  have str: "third_succeeds_pulls 3 = ?pre @ Line downloading # ?post"
    by (simp add: third_succeeds_pulls_def good_stream_def)
  have tk: "tokens ?pre = layer_a @ layer_b" by code_simp
  have r2: "replicate (3 - 1) (30::nat) = [30, 30]" by (simp add: numeral_2_eq_2)
  note a = get_layers_image_retries_transient_failures
    [where pulls = failing_pulls and repo_name = "''redis''" and tag_name = "''7''",
      THEN conjunct1, THEN mp, OF f1]
  note b = get_layers_image_retries_transient_failures
    [where pulls = third_succeeds_pulls and repo_name = "''redis''" and tag_name = "''7''"
       and pre = ?pre and d = downloading and post = ?post,
      THEN conjunct2, THEN bspec, OF k, THEN mp, OF conjI [OF f2 conjI [OF pre conjI [OF d str]]]]
  from a b [unfolded tk r2] show ?thesis by (simp only: simp_thms)
qed

text \<open>
  Claim C4 as stated fails on the budget: when the first four attempts fail transiently and
  a fifth would succeed, the function has already returned the empty string after four
  attempts; no fifth attempt is made.
\<close>

theorem get_layers_image_five_attempts_counterexample:
  "fails_transiently ''redis'' (fifth_succeeds_pulls 1) \<and>
   fails_transiently ''redis'' (fifth_succeeds_pulls 2) \<and>
   fails_transiently ''redis'' (fifth_succeeds_pulls 3) \<and>
   fails_transiently ''redis'' (fifth_succeeds_pulls 4) \<and>
   get_layers_image ''redis'' ''7'' (\<lambda>retrial. fifth_succeeds_pulls 5) = Inr (layer_a @ layer_b) \<and>
   get_layers_image ''redis'' ''7'' fifth_succeeds_pulls = Inr [] \<and>
   get_layers_image_run ''redis'' ''7'' fifth_succeeds_pulls =
     Inr \<lparr>fs_layer_ids = [], is_retrieved = False, attempts_made = 4, sleeps = [30, 30, 30]\<rparr>"
  by code_simp

section \<open>Properties of repository extraction and of the synchronizer\<close>

lemma watermark_loop_examined_le:
  "watermark_loop images m n = (w, k) \<Longrightarrow> k \<le> length images"
proof (induction images arbitrary: m n w k)
  case Nil
  then show ?case by simp
next
  case (Cons img images)
  then show ?case
    by (auto split: if_splits prod.splits)
qed

lemma Max_insert_below:
  assumes "finite S" and "a \<le> (b::int)"
  shows "Max (insert a (insert b S)) = Max (insert b S)"
proof -
  from assms(1) have "Max (insert a (insert b S)) = max a (Max (insert b S))"
    by (subst Max_insert) simp_all
  moreover from assms(1) have "b \<le> Max (insert b S)" by (intro Max_ge) simp_all
  ultimately show ?thesis using assms(2) by simp
qed

lemma watermark_loop_max:
  "watermark_loop images m n = (w, k) \<Longrightarrow>
   w = Max (insert m (last_updated ` set (take k images)))"
proof (induction images arbitrary: m n w k)
  case Nil
  then show ?case by simp
next
  case (Cons img images)
  show ?case
  proof (cases "n \<ge> threshold")
    case True
    with Cons.prems show ?thesis by simp
  next
    case False
    show ?thesis
    proof (cases "last_updated img > m")
      case True
      with False Cons.prems obtain k' where
        rec: "watermark_loop images (last_updated img) n = (w, k')" and k: "k = Suc k'"
        by (auto split: prod.splits)
      from Cons.IH [OF rec]
      have "w = Max (insert (last_updated img) (last_updated ` set (take k' images)))" .
      also have "\<dots> = Max (insert m (insert (last_updated img) (last_updated ` set (take k' images))))"
        using True by (intro Max_insert_below [symmetric]) simp_all
      finally show ?thesis by (simp add: k)
    next
      case lower: False
      with False Cons.prems obtain k' where
        rec: "watermark_loop images m (n + 1) = (w, k')" and k: "k = Suc k'"
        by (auto split: prod.splits)
      from Cons.IH [OF rec] have "w = Max (insert m (last_updated ` set (take k' images)))" .
      also have "\<dots> = Max (insert (last_updated img) (insert m (last_updated ` set (take k' images))))"
        using lower by (intro Max_insert_below [symmetric]) simp_all
      finally show ?thesis by (simp add: k insert_commute)
    qed
  qed
qed

lemma watermark_loop_non_raising:
  "watermark_loop images m n = (w, k) \<Longrightarrow> n \<le> threshold \<Longrightarrow>
   n + non_raising (take k images) m \<le> threshold \<and>
   (k < length images \<longrightarrow> n + non_raising (take k images) m = threshold)"
proof (induction images arbitrary: m n w k)
  case Nil
  then show ?case by simp
next
  case (Cons img images)
  show ?case
  proof (cases "n \<ge> threshold")
    case True
    with Cons.prems show ?thesis by simp
  next
    case False
    show ?thesis
    proof (cases "last_updated img > m")
      case True
      with False Cons.prems obtain k' where
        rec: "watermark_loop images (last_updated img) n = (w, k')" and k: "k = Suc k'"
        by (auto split: prod.splits)
      from Cons.IH [OF rec Cons.prems(2)] True show ?thesis by (simp add: k)
    next
      case lower: False
      with False Cons.prems obtain k' where
        rec: "watermark_loop images m (n + 1) = (w, k')" and k: "k = Suc k'"
        by (auto split: prod.splits)
      from False have "n + 1 \<le> threshold" by simp
      from Cons.IH [OF rec this] lower show ?thesis by (simp add: k)
    qed
  qed
qed

lemma watermark_loop_beyond:
  "watermark_loop images m n = (w, k) \<Longrightarrow> k < length images \<Longrightarrow>
   watermark_loop (take k images @ later) m n = (w, k)"
proof (induction images arbitrary: m n w k)
  case Nil
  then show ?case by simp
next
  case (Cons img images)
  show ?case
  proof (cases "n \<ge> threshold")
    case True
    with Cons.prems have "k = 0" "w = m" by simp_all
    with True show ?thesis by (cases later) simp_all
  next
    case False
    show ?thesis
    proof (cases "last_updated img > m")
      case True
      with False Cons.prems obtain k' where
        rec: "watermark_loop images (last_updated img) n = (w, k')" and k: "k = Suc k'"
        by (auto split: prod.splits)
      from Cons.prems(2) k have "k' < length images" by simp
      from Cons.IH [OF rec this] True False show ?thesis by (simp add: k)
    next
      case lower: False
      with False Cons.prems obtain k' where
        rec: "watermark_loop images m (n + 1) = (w, k')" and k: "k = Suc k'"
        by (auto split: prod.splits)
      from Cons.prems(2) k have "k' < length images" by simp
      from Cons.IH [OF rec this] lower False show ?thesis by (simp add: k)
    qed
  qed
qed

text \<open>
  Claim C3, as amended. The scan of a repository's records counts the records that do not
  raise the running maximum of \<open>last_updated\<close> and stops when 30 of them have been
  counted; a record that raises the maximum is not counted, so more than 30 records may be
  examined. The watermark is the maximum of 0 and the \<open>last_updated\<close> values of the
  examined records; at most 30 of the examined records did not raise the maximum; and
  when the scan stops before the end of the list, exactly 30 did not, and the records
  after the examined ones never contribute, whatever they are.
\<close>

theorem watermark_window:
  "examined_images images \<le> length images \<and>
   watermark images =
     Max (insert 0 (last_updated ` set (take (examined_images images) images))) \<and>
   non_raising (take (examined_images images) images) 0 \<le> 30 \<and>
   (examined_images images < length images \<longrightarrow>
      non_raising (take (examined_images images) images) 0 = 30 \<and>
      watermark (take (examined_images images) images @ later) = watermark images)"
proof -
  obtain w k where loop: "watermark_loop images 0 0 = (w, k)"
    by (cases "watermark_loop images 0 0")
  then have wk: "watermark images = w" "examined_images images = k"
    by (simp_all add: watermark_def examined_images_def)
  have th: "threshold = 30" by (simp add: threshold_def)
  note nr = watermark_loop_non_raising [OF loop, unfolded th]
  have a: "k \<le> length images" using loop by (rule watermark_loop_examined_le)
  have b: "w = Max (insert 0 (last_updated ` set (take k images)))"
    using loop by (rule watermark_loop_max)
  have c: "non_raising (take k images) 0 \<le> 30" using nr by simp
  have d: "k < length images \<longrightarrow> non_raising (take k images) 0 = 30 \<and>
      watermark (take k images @ later) = w"
  proof
    assume lt: "k < length images"
    from watermark_loop_beyond [OF loop lt, of later]
    have "watermark (take k images @ later) = w" by (simp add: watermark_def)
    with nr lt show "non_raising (take k images) 0 = 30 \<and>
      watermark (take k images @ later) = w" by simp
  qed
  from a b c d show ?thesis unfolding wk by blast
qed

text \<open>
  A record, thirty older ones and a newest last one: the scan examines 31 records and the
  watermark is that of the first; the last record does not count.
\<close>

theorem watermark_window_witness:
  "length stale_images = 32 \<and> examined_images stale_images = 31 \<and>
   watermark stale_images = 100 \<and>
   non_raising (take (examined_images stale_images) stale_images) 0 = 30 \<and>
   watermark (take (examined_images stale_images) stale_images @ [stamped 5000]) = 100"
proof -
  have lt: "examined_images stale_images < length stale_images" by code_simp
  have e: "length stale_images = 32" "examined_images stale_images = 31"
    "watermark stale_images = 100" by code_simp+
  from watermark_window [of stale_images "[stamped 5000]", THEN conjunct2, THEN conjunct2,
      THEN conjunct2, THEN mp, OF lt]
  show ?thesis by (simp only: e simp_thms)
qed

text \<open>
  Claim C3 as stated fails: of 31 records, each newer than the one before, all 31 are
  examined and the watermark is the value of the 31st, not the maximum of the first 30.
\<close>

theorem watermark_window_counterexample:
  "length rising_images = 31 \<and> examined_images rising_images = 31 \<and>
   watermark rising_images = 31 \<and> watermark (take 30 rising_images) = 30 \<and>
   last_updated (rising_images ! 30) = 31"
  by code_simp

text \<open>
  Claim C9, as amended. A failure to read or to parse the database file raises inside the
  \<open>try\<close> body before any repository is touched; the bare \<open>except\<close> logs it and the
  function returns to its caller: nothing was written to the file, the file was not
  renamed, and no exception ever propagates out of the function.
\<close>

theorem update_official_database_read_failure_logged:
  "update_body h Unreadable = ([], Failed IOError) \<and>
   update_body h Unparsable = ([], Failed ValueError) \<and>
   update_official_database h Unreadable =
     Returned \<lparr>db_writes = [], renamed = False, failure_logged = Some IOError\<rparr> \<and>
   update_official_database h Unparsable =
     Returned \<lparr>db_writes = [], renamed = False, failure_logged = Some ValueError\<rparr> \<and>
   update_official_database h file \<noteq> Propagated e"
proof -
  have "update_official_database h file \<noteq> Propagated e"
  proof (cases "update_body h file")
    case (Pair ws ending)
    then show ?thesis
      by (cases ending) (simp_all add: update_official_database_def)
  qed
  then show ?thesis
    by (simp add: update_official_database_def update_body_def)
qed

text \<open>
  The \<open>redis\<close> registry with a database file that does not parse.
\<close>

theorem update_official_database_read_failure_logged_witness:
  "update_official_database redis_hub Unparsable =
     Returned \<lparr>db_writes = [], renamed = False, failure_logged = Some ValueError\<rparr>"
  using update_official_database_read_failure_logged [of redis_hub]
  by (rule conjunct2 [THEN conjunct2, THEN conjunct2, THEN conjunct1])

text \<open>
  Claim C9 as stated fails: with an unreadable file the body raises \<open>IOError\<close>, and the
  call does not propagate it; it returns with the failure logged.
\<close>

theorem update_official_database_propagates_counterexample:
  "update_body redis_hub Unreadable = ([], Failed IOError) \<and>
   update_official_database redis_hub Unreadable \<noteq> Propagated IOError \<and>
   update_official_database redis_hub Unreadable =
     Returned \<lparr>db_writes = [], renamed = False, failure_logged = Some IOError\<rparr>"
  by code_simp

lemma images_loop_no_match:
  assumes "\<forall>img\<in>set (repository_images st). fs_layers img \<noteq> L \<and> image_tag img \<noteq> t"
  shows "images_loop h repository t L i st = Inr st"
proof (induction "length (repository_images st) - i" arbitrary: i)
  case 0
  then show ?case by (subst images_loop.simps) simp
next
  case (Suc n)
  then have lt: "i < length (repository_images st)" by simp
  then have "repository_images st ! i \<in> set (repository_images st)" by simp
  with assms have nm: "fs_layers (repository_images st ! i) \<noteq> L"
    "image_tag (repository_images st ! i) \<noteq> t" by simp_all
  from Suc(2) have "n = length (repository_images st) - (i + 1)" by simp
  then have "images_loop h repository t L (i + 1) st = Inr st" by (rule Suc(1))
  with lt nm show ?case
    by (subst images_loop.simps) (simp add: Let_def)
qed

lemma unstamped_fields:
  "fs_layers (unstamped img) = fs_layers img"
  "image_tag (unstamped img) = image_tag img"
  "created (unstamped img) = created img"
  by (simp_all add: unstamped_def)

lemma unstamped_restamp: "unstamped (img\<lparr>last_updated := v\<rparr>) = unstamped img"
  by (simp add: unstamped_def)

lemma unstamped_update:
  "map unstamped (xs[k := (xs ! k)\<lparr>last_updated := v\<rparr>]) = map unstamped xs"
proof (cases "k < length xs")
  case True
  then show ?thesis
    by (simp add: map_update list_update_same_conv unstamped_restamp)
next
  case False
  then have "length xs \<le> k" by simp
  then show ?thesis by (simp add: list_update_beyond)
qed

lemma images_loop_quiet_unstamped:
  assumes tq: "tag_query h repository u \<noteq> No_tag_object"
  shows "\<forall>img\<in>set (map unstamped (repository_images st)). image_tag img = u \<longrightarrow> fs_layers img = Lu \<Longrightarrow>
         \<exists>st'. images_loop h repository u Lu i st = Inr st' \<and>
           map unstamped (repository_images st') = map unstamped (repository_images st) \<and>
           added_image_layers st' = added_image_layers st \<and>
           is_image_updated st' =
             (is_image_updated st \<or>
              Lu \<in> fs_layers ` set (drop i (map unstamped (repository_images st)))) \<and>
           non_updated st' = non_updated st +
             length (filter (\<lambda>img. fs_layers img = Lu)
                       (drop i (map unstamped (repository_images st))))"
proof (induction "length (repository_images st) - i" arbitrary: i st)
  case 0
  then have "images_loop h repository u Lu i st = Inr st"
    by (subst images_loop.simps) simp
  with 0 show ?case by simp
next
  case (Suc n)
  let ?xs = "repository_images st"
  let ?x = "?xs ! i"
  from Suc(2) have lt: "i < length ?xs" by simp
  then have x_in: "?x \<in> set ?xs" by simp
  from lt have dropi: "drop i (map unstamped ?xs) =
      unstamped ?x # drop (Suc i) (map unstamped ?xs)"
    by (simp add: Cons_nth_drop_Suc [symmetric])
  show ?case
  proof (cases "fs_layers ?x = Lu")
    case True
    from tq obtain field where f: "tag_query h repository u = Tag_object field"
      by (cases "tag_query h repository u") auto
    define st1 where "st1 =
      (case field of
         Timestamp new_updated_time \<Rightarrow>
           (if new_updated_time > last_updated ?x then
              (case index_of ?x ?xs of
                 None \<Rightarrow> st
               | Some image_index \<Rightarrow>
                   st\<lparr>repository_images := ?xs
                     [image_index := (?xs ! image_index)\<lparr>last_updated := new_updated_time\<rparr>]\<rparr>)
            else st)
       | _ \<Rightarrow> st)"
    define st2 where "st2 = st1\<lparr>is_image_updated := True, non_updated := non_updated st1 + 1\<rparr>"
    have step: "images_loop h repository u Lu i st = images_loop h repository u Lu (i + 1) st2"
      using lt True by (subst images_loop.simps) (simp add: Let_def f st1_def st2_def)
    have u1: "map unstamped (repository_images st1) = map unstamped ?xs"
      "added_image_layers st1 = added_image_layers st" "non_updated st1 = non_updated st"
      by (simp_all add: st1_def unstamped_update split: timestamp_field.splits option.splits)
    then have u2: "map unstamped (repository_images st2) = map unstamped ?xs"
      "added_image_layers st2 = added_image_layers st" "non_updated st2 = non_updated st + 1"
      "is_image_updated st2"
      by (simp_all add: st2_def)
    from u2(1) have len: "length (repository_images st2) = length ?xs"
      by (rule map_eq_imp_length_eq)
    from Suc(2) len have n: "n = length (repository_images st2) - (i + 1)" by simp
    from Suc(3) u2(1) have q2: "\<forall>img\<in>set (map unstamped (repository_images st2)).
        image_tag img = u \<longrightarrow> fs_layers img = Lu" by simp
    from Suc(1) [OF n q2] obtain st' where
      r: "images_loop h repository u Lu (i + 1) st2 = Inr st'"
      "map unstamped (repository_images st') = map unstamped (repository_images st2)"
      "added_image_layers st' = added_image_layers st2"
      "is_image_updated st' = (is_image_updated st2 \<or>
          Lu \<in> fs_layers ` set (drop (i + 1) (map unstamped (repository_images st2))))"
      "non_updated st' = non_updated st2 +
          length (filter (\<lambda>img. fs_layers img = Lu)
                    (drop (i + 1) (map unstamped (repository_images st2))))"
      by blast
    from r u2 True step show ?thesis
      by (simp add: dropi unstamped_fields)
  next
    case False
    from Suc(3) x_in have "image_tag (unstamped ?x) = u \<longrightarrow> fs_layers (unstamped ?x) = Lu"
      by simp
    with False have nt: "image_tag ?x \<noteq> u" by (simp add: unstamped_fields)
    have step: "images_loop h repository u Lu i st = images_loop h repository u Lu (i + 1) st"
      using lt False nt by (subst images_loop.simps) (simp add: Let_def)
    from Suc(2) have n: "n = length ?xs - (i + 1)" by simp
    from Suc(1) [OF n Suc(3)] obtain st' where
      r: "images_loop h repository u Lu (i + 1) st = Inr st'"
      "map unstamped (repository_images st') = map unstamped ?xs"
      "added_image_layers st' = added_image_layers st"
      "is_image_updated st' = (is_image_updated st \<or>
          Lu \<in> fs_layers ` set (drop (i + 1) (map unstamped ?xs)))"
      "non_updated st' = non_updated st +
          length (filter (\<lambda>img. fs_layers img = Lu) (drop (i + 1) (map unstamped ?xs)))"
      by blast
    from r False step show ?thesis
      by (simp add: dropi unstamped_fields)
  qed
qed

lemma images_loop_quiet:
  assumes tq: "tag_query h repository u \<noteq> No_tag_object"
    and q: "\<forall>img\<in>set (repository_images st). image_tag img = u \<longrightarrow> fs_layers img = Lu"
  shows "\<exists>st'. images_loop h repository u Lu 0 st = Inr st' \<and>
           map unstamped (repository_images st') = map unstamped (repository_images st) \<and>
           added_image_layers st' = added_image_layers st \<and>
           is_image_updated st' =
             (is_image_updated st \<or> Lu \<in> fs_layers ` set (repository_images st)) \<and>
           non_updated st' = non_updated st +
             length (filter (\<lambda>l. l = Lu) (map fs_layers (repository_images st)))"
proof -
  from q have "\<forall>img\<in>set (map unstamped (repository_images st)).
      image_tag img = u \<longrightarrow> fs_layers img = Lu"
    by (simp add: unstamped_fields)
  from images_loop_quiet_unstamped [OF tq this, of 0] obtain st' where
    r: "images_loop h repository u Lu 0 st = Inr st'"
    "map unstamped (repository_images st') = map unstamped (repository_images st)"
    "added_image_layers st' = added_image_layers st"
    "is_image_updated st' = (is_image_updated st \<or>
        Lu \<in> fs_layers ` set (drop 0 (map unstamped (repository_images st))))"
    "non_updated st' = non_updated st +
        length (filter (\<lambda>img. fs_layers img = Lu)
                  (drop 0 (map unstamped (repository_images st))))"
    by blast
  have a: "fs_layers ` set (drop 0 (map unstamped (repository_images st))) =
      fs_layers ` set (repository_images st)"
    by (simp add: image_image unstamped_fields)
  have b: "length (filter (\<lambda>img. fs_layers img = Lu)
                  (drop 0 (map unstamped (repository_images st)))) =
      length (filter (\<lambda>l. l = Lu) (map fs_layers (repository_images st)))"
    by (simp add: filter_map o_def unstamped_fields)
  from r show ?thesis unfolding a b by blast
qed

lemma has_timestamp_iff: "has_timestamp x \<longleftrightarrow> (\<exists>ut. x = Tag_object (Timestamp ut))"
  by (cases x rule: has_timestamp.cases) simp_all

lemma added_by_iff:
  "added_by h repository P v \<longleftrightarrow>
     image_tag v \<in> P \<and>
     extracted h repository (image_tag v) = Inr (fs_layers v) \<and>
     (\<exists>ut. tag_query h repository (image_tag v) = Tag_object (Timestamp ut)) \<and>
     created_query h repository (image_tag v) = Some (created v)"
  by (simp add: added_by_def has_timestamp_iff)

lemma pass_invariant_iff:
  "pass_invariant h repository images P st \<longleftrightarrow>
     (\<exists>V. map unstamped (repository_images st) = map unstamped images @ V \<and>
          (\<forall>v\<in>set V. added_by h repository P v)) \<and>
     distinct (map fs_layers (repository_images st)) \<and>
     (\<forall>l\<in>added_image_layers st. \<exists>u\<in>P. extracted h repository u = Inr l)"
proof -
  let ?U = "map unstamped (repository_images st)"
  let ?I = "map unstamped images"
  have "(\<exists>V. ?U = ?I @ V \<and> (\<forall>v\<in>set V. added_by h repository P v)) \<longleftrightarrow>
      take (length images) ?U = ?I \<and>
      (\<forall>v\<in>set (drop (length images) ?U). added_by h repository P v)"
  proof
    assume "\<exists>V. ?U = ?I @ V \<and> (\<forall>v\<in>set V. added_by h repository P v)"
    then obtain V where V: "?U = ?I @ V" "\<forall>v\<in>set V. added_by h repository P v" by blast
    from V(1) have "take (length images) ?U = ?I" "drop (length images) ?U = V" by simp_all
    with V(2) show "take (length images) ?U = ?I \<and>
      (\<forall>v\<in>set (drop (length images) ?U). added_by h repository P v)" by simp
  next
    assume a: "take (length images) ?U = ?I \<and>
      (\<forall>v\<in>set (drop (length images) ?U). added_by h repository P v)"
    have "?U = take (length images) ?U @ drop (length images) ?U" by simp
    with a have "?U = ?I @ drop (length images) ?U" by simp
    with a show "\<exists>V. ?U = ?I @ V \<and> (\<forall>v\<in>set V. added_by h repository P v)" by blast
  qed
  then show ?thesis unfolding pass_invariant_def by simp
qed

lemma added_by_mono: "added_by h repository P v \<Longrightarrow> P \<subseteq> P' \<Longrightarrow> added_by h repository P' v"
  by (auto simp: added_by_iff)

lemma pass_invariant_mono:
  assumes "pass_invariant h repository images P st" and "P \<subseteq> P'"
  shows "pass_invariant h repository images P' st"
proof -
  from assms(1) obtain V where
    V: "map unstamped (repository_images st) = map unstamped images @ V"
      "\<forall>v\<in>set V. added_by h repository P v"
    and rest: "distinct (map fs_layers (repository_images st))"
      "\<forall>l\<in>added_image_layers st. \<exists>u\<in>P. extracted h repository u = Inr l"
    unfolding pass_invariant_iff by blast
  from V(2) assms(2) have "\<forall>v\<in>set V. added_by h repository P' v"
    by (blast intro: added_by_mono)
  moreover from rest(2) assms(2) have
    "\<forall>l\<in>added_image_layers st. \<exists>u\<in>P'. extracted h repository u = Inr l" by blast
  ultimately show ?thesis unfolding pass_invariant_iff using V(1) rest(1) by blast
qed

lemma fs_layers_unstamped: "map fs_layers (map unstamped xs) = map fs_layers xs"
  by (simp add: unstamped_fields)

lemma process_tag_quiet:
  assumes ext: "extracted h repository u = Inr Lu"
    and tq: "tag_query h repository u \<noteq> No_tag_object"
    and q: "\<forall>img\<in>set (repository_images st). image_tag img = u \<longrightarrow> Lu = [] \<or> fs_layers img = Lu"
  shows "\<exists>st'. process_tag h repository u st = Inr st' \<and>
    (map unstamped (repository_images st') = map unstamped (repository_images st) \<or>
     (\<exists>ut c. tag_query h repository u = Tag_object (Timestamp ut) \<and>
        created_query h repository u = Some c \<and> Lu \<noteq> [] \<and>
        Lu \<notin> fs_layers ` set (repository_images st) \<and>
        map unstamped (repository_images st') =
          map unstamped (repository_images st) @
            [\<lparr>fs_layers = Lu, image_tag = u, last_updated = 0, created = c\<rparr>])) \<and>
    added_image_layers st' \<subseteq> insert Lu (added_image_layers st) \<and>
    non_updated st' \<le> non_updated st +
      length (filter (\<lambda>l. l = Lu) (map fs_layers (repository_images st)))"
proof (cases "Lu = []")
  case True
  with ext have "process_tag h repository u st = Inr (st\<lparr>is_image_updated := False\<rparr>)"
    by (simp add: process_tag_def extracted_def)
  then show ?thesis by auto
next
  case False
  let ?st0 = "st\<lparr>is_image_updated := False\<rparr>"
  from q False have "\<forall>img\<in>set (repository_images ?st0). image_tag img = u \<longrightarrow> fs_layers img = Lu"
    by simp
  from images_loop_quiet [OF tq this] obtain st1 where
    r: "images_loop h repository u Lu 0 ?st0 = Inr st1"
    "map unstamped (repository_images st1) = map unstamped (repository_images st)"
    "added_image_layers st1 = added_image_layers st"
    "is_image_updated st1 = (Lu \<in> fs_layers ` set (repository_images st))"
    "non_updated st1 = non_updated st +
        length (filter (\<lambda>l. l = Lu) (map fs_layers (repository_images st)))"
    by auto
  from tq obtain field where f: "tag_query h repository u = Tag_object field"
    by (cases "tag_query h repository u") auto
  show ?thesis
  proof (cases "\<not> is_image_updated st1 \<and> Lu \<notin> added_image_layers st1")
    case no: False
    with ext False r(1) have "process_tag h repository u st = Inr st1"
      by (auto simp: process_tag_def extracted_def)
    with r show ?thesis by auto
  next
    case yes: True
    show ?thesis
    proof (cases "\<exists>ut c. field = Timestamp ut \<and> created_query h repository u = Some c")
      case True
      then obtain ut c where tc: "field = Timestamp ut" "created_query h repository u = Some c"
        by blast
      let ?new = "\<lparr>fs_layers = Lu, image_tag = u, last_updated = ut, created = c\<rparr>"
      let ?st' = "st1\<lparr>repository_images := repository_images st1 @ [?new],
                     added_image_layers := insert Lu (added_image_layers st1)\<rparr>"
      from ext False r(1) yes f tc have p: "process_tag h repository u st = Inr ?st'"
        by (simp add: process_tag_def extracted_def)
      have "unstamped ?new = \<lparr>fs_layers = Lu, image_tag = u, last_updated = 0, created = c\<rparr>"
        by (simp add: unstamped_def)
      with r(2) have "map unstamped (repository_images ?st') =
          map unstamped (repository_images st) @
            [\<lparr>fs_layers = Lu, image_tag = u, last_updated = 0, created = c\<rparr>]" by simp
      moreover from yes r(4) have "Lu \<notin> fs_layers ` set (repository_images st)" by simp
      ultimately show ?thesis using p f tc False r(3) r(5) by auto
    next
      case False
      with ext \<open>Lu \<noteq> []\<close> r(1) yes f have "process_tag h repository u st = Inr st1"
        by (auto simp: process_tag_def extracted_def split: timestamp_field.splits option.splits)
      with r show ?thesis by auto
    qed
  qed
qed

lemma distinct_filter_eq_le:
  "distinct xs \<Longrightarrow> length (filter (\<lambda>l. l = a) xs) \<le> 1"
proof (induction xs)
  case Nil
  show ?case by simp
next
  case (Cons x xs)
  show ?case
  proof (cases "x = a")
    case True
    with Cons.prems have "a \<notin> set xs" by simp
    then have "filter (\<lambda>l. l = a) xs = []" by (auto simp: filter_empty_conv)
    with True show ?thesis by simp
  next
    case False
    with Cons show ?thesis by simp
  qed
qed

lemma process_tag_invariant:
  assumes inv: "pass_invariant h repository images P st"
    and ext: "extracted h repository u = Inr Lu"
    and tq: "tag_query h repository u \<noteq> No_tag_object"
    and unch: "\<forall>img\<in>set images. image_tag img = u \<longrightarrow> Lu = [] \<or> fs_layers img = Lu"
  shows "\<exists>st'. process_tag h repository u st = Inr st' \<and>
           pass_invariant h repository images (insert u P) st' \<and>
           prefix (map unstamped (repository_images st)) (map unstamped (repository_images st')) \<and>
           non_updated st' \<le> non_updated st + 1"
proof -
  let ?xs = "repository_images st"
  from inv obtain V where
    V: "map unstamped ?xs = map unstamped images @ V"
      "\<forall>v\<in>set V. added_by h repository P v"
    and dist: "distinct (map fs_layers ?xs)"
    and added: "\<forall>l\<in>added_image_layers st. \<exists>u\<in>P. extracted h repository u = Inr l"
    unfolding pass_invariant_iff by blast
  have q: "\<forall>img\<in>set ?xs. image_tag img = u \<longrightarrow> Lu = [] \<or> fs_layers img = Lu"
  proof (intro ballI impI)
    fix img assume img: "img \<in> set ?xs" and t: "image_tag img = u"
    from img have "unstamped img \<in> set (map unstamped ?xs)" by simp
    with V(1) have "unstamped img \<in> set (map unstamped images) \<or> unstamped img \<in> set V"
      by simp
    then show "Lu = [] \<or> fs_layers img = Lu"
    proof
      assume "unstamped img \<in> set (map unstamped images)"
      then obtain orig where o: "orig \<in> set images" "unstamped orig = unstamped img" by auto
      from o(2) have "fs_layers orig = fs_layers img" "image_tag orig = image_tag img"
        by (metis unstamped_fields(1), metis unstamped_fields(2))
      with unch o(1) t show ?thesis by auto
    next
      assume "unstamped img \<in> set V"
      with V(2) have "added_by h repository P (unstamped img)" ..
      then have "extracted h repository (image_tag img) = Inr (fs_layers img)"
        by (simp add: added_by_iff unstamped_fields)
      with ext t show ?thesis by simp
    qed
  qed
  from process_tag_quiet [OF ext tq q] obtain st' where
    p: "process_tag h repository u st = Inr st'"
    and shape: "map unstamped (repository_images st') = map unstamped ?xs \<or>
     (\<exists>ut c. tag_query h repository u = Tag_object (Timestamp ut) \<and>
        created_query h repository u = Some c \<and> Lu \<noteq> [] \<and>
        Lu \<notin> fs_layers ` set ?xs \<and>
        map unstamped (repository_images st') =
          map unstamped ?xs @ [\<lparr>fs_layers = Lu, image_tag = u, last_updated = 0, created = c\<rparr>])"
    and sub: "added_image_layers st' \<subseteq> insert Lu (added_image_layers st)"
    and n: "non_updated st' \<le> non_updated st +
      length (filter (\<lambda>l. l = Lu) (map fs_layers ?xs))"
    by blast
  from distinct_filter_eq_le [OF dist, of Lu] n have n1: "non_updated st' \<le> non_updated st + 1"
    by simp
  have added': "\<forall>l\<in>added_image_layers st'. \<exists>u'\<in>insert u P. extracted h repository u' = Inr l"
  proof
    fix l assume "l \<in> added_image_layers st'"
    with sub have "l = Lu \<or> l \<in> added_image_layers st" by blast
    then show "\<exists>u'\<in>insert u P. extracted h repository u' = Inr l"
    proof
      assume "l = Lu"
      with ext show ?thesis by blast
    next
      assume "l \<in> added_image_layers st"
      with added show ?thesis by blast
    qed
  qed
  from V(2) have V': "\<forall>v\<in>set V. added_by h repository (insert u P) v"
    by (blast intro: added_by_mono)
  from shape show ?thesis
  proof
    assume same: "map unstamped (repository_images st') = map unstamped ?xs"
    then have "map fs_layers (map unstamped (repository_images st')) =
        map fs_layers (map unstamped ?xs)" by simp
    then have "map fs_layers (repository_images st') = map fs_layers ?xs"
      by (simp only: fs_layers_unstamped)
    with dist have d': "distinct (map fs_layers (repository_images st'))" by simp
    from same V(1) have "map unstamped (repository_images st') = map unstamped images @ V"
      by simp
    with V' d' added' have "pass_invariant h repository images (insert u P) st'"
      unfolding pass_invariant_iff by blast
    with p same n1 show ?thesis by auto
  next
    assume "\<exists>ut c. tag_query h repository u = Tag_object (Timestamp ut) \<and>
        created_query h repository u = Some c \<and> Lu \<noteq> [] \<and>
        Lu \<notin> fs_layers ` set ?xs \<and>
        map unstamped (repository_images st') =
          map unstamped ?xs @ [\<lparr>fs_layers = Lu, image_tag = u, last_updated = 0, created = c\<rparr>]"
    then obtain ut c where a: "tag_query h repository u = Tag_object (Timestamp ut)"
      "created_query h repository u = Some c" "Lu \<notin> fs_layers ` set ?xs"
      "map unstamped (repository_images st') =
          map unstamped ?xs @ [\<lparr>fs_layers = Lu, image_tag = u, last_updated = 0, created = c\<rparr>]"
      by blast
    let ?new = "\<lparr>fs_layers = Lu, image_tag = u, last_updated = 0, created = c\<rparr>"
    from a(4) have "map fs_layers (map unstamped (repository_images st')) =
        map fs_layers (map unstamped ?xs @ [?new])" by simp
    then have "map fs_layers (repository_images st') = map fs_layers ?xs @ [Lu]"
      unfolding map_append fs_layers_unstamped by simp
    with dist a(3) have d': "distinct (map fs_layers (repository_images st'))" by simp
    from a(1,2) ext have "added_by h repository (insert u P) ?new"
      by (simp add: added_by_iff)
    with V' have V'': "\<forall>v\<in>set (V @ [?new]). added_by h repository (insert u P) v" by simp
    from a(4) V(1) have "map unstamped (repository_images st') =
        map unstamped images @ (V @ [?new])" by simp
    with V'' d' added' have "pass_invariant h repository images (insert u P) st'"
      unfolding pass_invariant_iff by blast
    moreover from a(4) have "prefix (map unstamped ?xs) (map unstamped (repository_images st'))"
      by simp
    ultimately show ?thesis using p n1 by blast
  qed
qed

lemma tags_loop_done:
  "non_updated st \<ge> non_updated_threshold \<Longrightarrow> tags_loop h repository us st = Inr st"
  by (cases us) simp_all

lemma tags_loop_append:
  "tags_loop h repository (us @ vs) st =
     (case tags_loop h repository us st of
        Inl e \<Rightarrow> Inl e
      | Inr st' \<Rightarrow> tags_loop h repository vs st')"
proof (induction us arbitrary: st)
  case Nil
  show ?case by simp
next
  case (Cons u us)
  show ?case
  proof (cases "non_updated st \<ge> non_updated_threshold")
    case True
    then show ?thesis by (simp add: tags_loop_done)
  next
    case False
    then show ?thesis
      by (cases "process_tag h repository u st") (simp_all add: Cons.IH)
  qed
qed

lemma tags_loop_quiet:
  assumes ans: "\<forall>u\<in>set us. (\<exists>Lu. extracted h repository u = Inr Lu) \<and>
        tag_query h repository u \<noteq> No_tag_object"
    and unch: "\<forall>u\<in>set us. \<forall>img\<in>set images. image_tag img = u \<longrightarrow>
        extracted h repository u = Inr [] \<or> extracted h repository u = Inr (fs_layers img)"
  shows "pass_invariant h repository images P st \<Longrightarrow>
         \<exists>st'. tags_loop h repository us st = Inr st' \<and>
           pass_invariant h repository images (P \<union> set us) st' \<and>
           prefix (map unstamped (repository_images st)) (map unstamped (repository_images st')) \<and>
           non_updated st' \<le> non_updated st + length us"
  using ans unch
proof (induction us arbitrary: st P)
  case Nil
  then show ?case by simp
next
  case (Cons u us)
  show ?case
  proof (cases "non_updated st \<ge> non_updated_threshold")
    case True
    from Cons.prems(1) have "pass_invariant h repository images (P \<union> set (u # us)) st"
      by (rule pass_invariant_mono) blast
    with True show ?thesis by simp
  next
    case False
    from Cons.prems(2) obtain Lu where ext: "extracted h repository u = Inr Lu"
      and tq: "tag_query h repository u \<noteq> No_tag_object" by auto
    from Cons.prems(3) ext have
      unch: "\<forall>img\<in>set images. image_tag img = u \<longrightarrow> Lu = [] \<or> fs_layers img = Lu"
      by auto
    from process_tag_invariant [OF Cons.prems(1) ext tq unch] obtain st1 where
      s1: "process_tag h repository u st = Inr st1"
      "pass_invariant h repository images (insert u P) st1"
      "prefix (map unstamped (repository_images st)) (map unstamped (repository_images st1))"
      "non_updated st1 \<le> non_updated st + 1" by blast
    from Cons.prems(2) have ans': "\<forall>u\<in>set us. (\<exists>Lu. extracted h repository u = Inr Lu) \<and>
        tag_query h repository u \<noteq> No_tag_object" by simp
    from Cons.prems(3) have unch': "\<forall>u\<in>set us. \<forall>img\<in>set images. image_tag img = u \<longrightarrow>
        extracted h repository u = Inr [] \<or> extracted h repository u = Inr (fs_layers img)"
      by simp
    from Cons.IH [OF s1(2) ans' unch'] obtain st' where
      s': "tags_loop h repository us st1 = Inr st'"
      "pass_invariant h repository images (insert u P \<union> set us) st'"
      "prefix (map unstamped (repository_images st1)) (map unstamped (repository_images st'))"
      "non_updated st' \<le> non_updated st1 + length us" by blast
    from False s1(1) s'(1) have "tags_loop h repository (u # us) st = Inr st'" by simp
    moreover from s'(2) have "pass_invariant h repository images (P \<union> set (u # us)) st'"
      by simp
    moreover from s1(3) s'(3) have
      "prefix (map unstamped (repository_images st)) (map unstamped (repository_images st'))"
      by (rule prefix_order.trans)
    moreover from s1(4) s'(4) have "non_updated st' \<le> non_updated st + length (u # us)"
      by simp
    ultimately show ?thesis by blast
  qed
qed

lemma process_tag_first_branches:
  assumes layers: "extracted h repository t = Inr L"
    and nonempty: "L \<noteq> []"
    and fresh: "\<forall>img\<in>set (repository_images st). fs_layers img \<noteq> L \<and> image_tag img \<noteq> t"
    and not_added: "L \<notin> added_image_layers st"
  shows "process_tag h repository t st =
     (case tag_query h repository t of
        No_tag_object \<Rightarrow> Inl AttributeError
      | Tag_object (Timestamp updated_time) \<Rightarrow>
          (case created_query h repository t of
             None \<Rightarrow> Inr (st\<lparr>is_image_updated := False\<rparr>)
           | Some c \<Rightarrow>
               Inr (st\<lparr>repository_images := repository_images st @
                         [\<lparr>fs_layers = L, image_tag = t, last_updated = updated_time,
                           created = c\<rparr>],
                       added_image_layers := insert L (added_image_layers st),
                       is_image_updated := False\<rparr>))
      | Tag_object _ \<Rightarrow> Inr (st\<lparr>is_image_updated := False\<rparr>))"
proof -
  let ?st0 = "st\<lparr>is_image_updated := False\<rparr>"
  from fresh have "\<forall>img\<in>set (repository_images ?st0). fs_layers img \<noteq> L \<and> image_tag img \<noteq> t"
    by simp
  then have loop: "images_loop h repository t L 0 ?st0 = Inr ?st0"
    by (rule images_loop_no_match)
  from layers have l: "get_layers_image repository t (pull_streams h repository t) = Inr L"
    by (simp add: extracted_def)
  show ?thesis
    using nonempty not_added
    by (simp add: process_tag_def l loop
          split: tag_object.splits timestamp_field.splits option.splits)
qed

lemma pass_reaches_tag:
  assumes first: "t \<notin> set before"
    and early: "length before < non_updated_threshold"
    and answers: "\<forall>u\<in>set before. (\<exists>Lu. extracted h repository u = Inr Lu) \<and>
        tag_query h repository u \<noteq> No_tag_object"
    and unchanged: "\<forall>u\<in>set before. \<forall>img\<in>set images. image_tag img = u \<longrightarrow>
        extracted h repository u = Inr [] \<or> extracted h repository u = Inr (fs_layers img)"
    and different: "distinct (map fs_layers images)"
    and fresh: "\<forall>img\<in>set images. fs_layers img \<noteq> L \<and> image_tag img \<noteq> t"
    and other: "\<forall>u\<in>set before. extracted h repository u \<noteq> Inr L"
  shows "\<exists>st1. tags_loop h repository before
            \<lparr>repository_images = images, added_image_layers = {}, non_updated = 0,
             is_image_updated = False\<rparr> = Inr st1 \<and>
          pass_invariant h repository images (set before) st1 \<and>
          non_updated st1 < non_updated_threshold \<and>
          (\<forall>img\<in>set (repository_images st1). fs_layers img \<noteq> L \<and> image_tag img \<noteq> t) \<and>
          L \<notin> added_image_layers st1"
proof -
  let ?st0 = "\<lparr>repository_images = images, added_image_layers = {}, non_updated = 0,
             is_image_updated = False\<rparr>"
  from different have inv0: "pass_invariant h repository images {} ?st0"
    by (simp add: pass_invariant_def)
  from tags_loop_quiet [OF answers unchanged inv0] obtain st1 where
    s1: "tags_loop h repository before ?st0 = Inr st1"
    "pass_invariant h repository images ({} \<union> set before) st1"
    "non_updated st1 \<le> non_updated ?st0 + length before" by blast
  from s1(2) have inv1: "pass_invariant h repository images (set before) st1" by simp
  from s1(3) early have n1: "non_updated st1 < non_updated_threshold" by simp
  from inv1 obtain V where
    V: "map unstamped (repository_images st1) = map unstamped images @ V"
      "\<forall>v\<in>set V. added_by h repository (set before) v"
    and added: "\<forall>l\<in>added_image_layers st1. \<exists>u\<in>set before. extracted h repository u = Inr l"
    unfolding pass_invariant_iff by blast
  have fresh1: "\<forall>img\<in>set (repository_images st1). fs_layers img \<noteq> L \<and> image_tag img \<noteq> t"
  proof
    fix img assume "img \<in> set (repository_images st1)"
    then have "unstamped img \<in> set (map unstamped (repository_images st1))" by simp
    with V(1) have "unstamped img \<in> set (map unstamped images) \<or> unstamped img \<in> set V"
      by simp
    then show "fs_layers img \<noteq> L \<and> image_tag img \<noteq> t"
    proof
      assume "unstamped img \<in> set (map unstamped images)"
      then obtain orig where o: "orig \<in> set images" "unstamped orig = unstamped img" by auto
      from o(2) have "fs_layers orig = fs_layers img" "image_tag orig = image_tag img"
        by (metis unstamped_fields(1), metis unstamped_fields(2))
      with fresh o(1) show ?thesis by auto
    next
      assume "unstamped img \<in> set V"
      with V(2) have "added_by h repository (set before) (unstamped img)" ..
      then have "image_tag img \<in> set before"
        "extracted h repository (image_tag img) = Inr (fs_layers img)"
        by (simp_all add: added_by_iff unstamped_fields)
      with first other show ?thesis by auto
    qed
  qed
  from added other have "L \<notin> added_image_layers st1" by blast
  with s1(1) inv1 n1 fresh1 show ?thesis by blast
qed

lemma stored_then_appended:
  assumes U: "map unstamped xs = map unstamped images @ V"
  shows "map unstamped (take (length images) xs) = map unstamped images"
    and "map unstamped (drop (length images) xs) = V"
proof -
  from U have "take (length images) (map unstamped xs) = map unstamped images" by simp
  then show "map unstamped (take (length images) xs) = map unstamped images"
    by (simp add: take_map)
  from U have "drop (length images) (map unstamped xs) = V" by simp
  then show "map unstamped (drop (length images) xs) = V"
    by (simp add: drop_map)
qed

text \<open>
  Claim C5, as amended. Let the registry report the tags \<open>before\<close>, then \<open>t\<close>, then
  \<open>after\<close>, with fewer than 30 tags before \<open>t\<close>; let every other tag have layers
  extracted and a tag object; let every reported tag that a stored record carries extract
  that record's layers, or none; let the stored records have pairwise different layers;
  let the layers \<open>L\<close> extracted for \<open>t\<close> be non-empty, the layers of no stored record and
  of no earlier tag, and \<open>t\<close> the tag of no stored record. When the tag object of \<open>t\<close>
  has a timestamp and the creation-time lookup an answer, the pass returns a list in which
  the stored records are in place, the same apart from \<open>last_updated\<close>, and a record of
  tag \<open>t\<close> with the layers \<open>L\<close> comes after them, all layers pairwise different. When the
  tag object has no timestamp or the creation-time lookup no answer, the pass returns the
  stored records in place and no record of tag \<open>t\<close>. When the tag lookup fails, the pass
  raises \<open>AttributeError\<close>.
\<close>

theorem update_repository_appends_new_image:
  assumes tags: "repository_tags h repository = before @ t # after"
    and first: "t \<notin> set before"
    and early: "length before < non_updated_threshold"
    and answers: "\<forall>u\<in>set (before @ after). u \<noteq> t \<longrightarrow>
        (\<exists>Lu. extracted h repository u = Inr Lu) \<and> tag_query h repository u \<noteq> No_tag_object"
    and unchanged: "\<forall>u\<in>set (before @ after). \<forall>img\<in>set images. image_tag img = u \<longrightarrow>
        extracted h repository u = Inr [] \<or> extracted h repository u = Inr (fs_layers img)"
    and different: "distinct (map fs_layers images)"
    and layers: "extracted h repository t = Inr L" and nonempty: "L \<noteq> []"
    and fresh: "\<forall>img\<in>set images. fs_layers img \<noteq> L \<and> image_tag img \<noteq> t"
    and other: "\<forall>u\<in>set before. extracted h repository u \<noteq> Inr L"
  shows "(tag_query h repository t = Tag_object (Timestamp updated_time) \<and>
          created_query h repository t = Some c \<longrightarrow>
            (\<exists>images'. update_repository h repository images = Inr images' \<and>
               map unstamped (take (length images) images') = map unstamped images \<and>
               (\<exists>new\<in>set (drop (length images) images').
                  fs_layers new = L \<and> image_tag new = t \<and> created new = c) \<and>
               distinct (map fs_layers images'))) \<and>
         (tag_query h repository t = Tag_object Absent \<or>
          tag_query h repository t = Tag_object Null_string \<or>
          tag_query h repository t \<noteq> No_tag_object \<and> created_query h repository t = None \<longrightarrow>
            (\<exists>images'. update_repository h repository images = Inr images' \<and>
               map unstamped (take (length images) images') = map unstamped images \<and>
               (\<forall>img\<in>set images'. image_tag img \<noteq> t))) \<and>
         (tag_query h repository t = No_tag_object \<longrightarrow>
            update_repository h repository images = Inl AttributeError)"
proof (intro conjI impI)
  let ?st0 = "\<lparr>repository_images = images, added_image_layers = {}, non_updated = 0,
             is_image_updated = False\<rparr>"
  from answers first have ans_before: "\<forall>u\<in>set before.
      (\<exists>Lu. extracted h repository u = Inr Lu) \<and> tag_query h repository u \<noteq> No_tag_object"
    by auto
  from unchanged have unch_before: "\<forall>u\<in>set before. \<forall>img\<in>set images. image_tag img = u \<longrightarrow>
      extracted h repository u = Inr [] \<or> extracted h repository u = Inr (fs_layers img)"
    by simp
  from unchanged have unch_after: "\<forall>u\<in>set after. \<forall>img\<in>set images. image_tag img = u \<longrightarrow>
      extracted h repository u = Inr [] \<or> extracted h repository u = Inr (fs_layers img)"
    by simp
  from pass_reaches_tag [OF first early ans_before unch_before different fresh other]
  obtain st1 where
    s1: "tags_loop h repository before ?st0 = Inr st1"
    and inv1: "pass_invariant h repository images (set before) st1"
    and n1: "non_updated st1 < non_updated_threshold"
    and fresh1: "\<forall>img\<in>set (repository_images st1). fs_layers img \<noteq> L \<and> image_tag img \<noteq> t"
    and not_added1: "L \<notin> added_image_layers st1"
    by blast
  note branches = process_tag_first_branches [OF layers nonempty fresh1 not_added1]
  have run: "tags_loop h repository (before @ t # after) ?st0 =
      (case process_tag h repository t st1 of
         Inl e \<Rightarrow> Inl e
       | Inr st2 \<Rightarrow> tags_loop h repository after st2)"
    using n1 by (simp add: tags_loop_append s1)
  {
    assume "tag_query h repository t = No_tag_object"
    with branches have "process_tag h repository t st1 = Inl AttributeError" by simp
    with run show "update_repository h repository images = Inl AttributeError"
      by (simp add: update_repository_def tags)
  }
  {
    assume lookups: "tag_query h repository t = Tag_object (Timestamp updated_time) \<and>
          created_query h repository t = Some c"
    let ?new = "\<lparr>fs_layers = L, image_tag = t, last_updated = updated_time, created = c\<rparr>"
    let ?st2 = "st1\<lparr>repository_images := repository_images st1 @ [?new],
                   added_image_layers := insert L (added_image_layers st1),
                   is_image_updated := False\<rparr>"
    from branches lookups have p: "process_tag h repository t st1 = Inr ?st2" by simp
    from inv1 obtain V where
      V: "map unstamped (repository_images st1) = map unstamped images @ V"
        "\<forall>v\<in>set V. added_by h repository (set before) v"
      and dist1: "distinct (map fs_layers (repository_images st1))"
      and added1: "\<forall>l\<in>added_image_layers st1. \<exists>u\<in>set before. extracted h repository u = Inr l"
      unfolding pass_invariant_iff by blast
    let ?P = "insert t (set before)"
    have U2: "map unstamped (repository_images ?st2) =
        map unstamped images @ (V @ [unstamped ?new])"
      using V(1) by simp
    from lookups layers have "added_by h repository ?P (unstamped ?new)"
      by (simp add: added_by_iff unstamped_fields)
    moreover from V(2) have "\<forall>v\<in>set V. added_by h repository ?P v"
      by (blast intro: added_by_mono)
    ultimately have V2: "\<forall>v\<in>set (V @ [unstamped ?new]). added_by h repository ?P v" by simp
    from fresh1 have "L \<notin> set (map fs_layers (repository_images st1))" by auto
    with dist1 have d2: "distinct (map fs_layers (repository_images ?st2))" by simp
    from added1 layers have a2: "\<forall>l\<in>added_image_layers ?st2.
        \<exists>u\<in>?P. extracted h repository u = Inr l" by auto
    from U2 V2 d2 a2 have inv2: "pass_invariant h repository images ?P ?st2"
      unfolding pass_invariant_iff by blast
    from answers layers lookups have ans_after: "\<forall>u\<in>set after.
        (\<exists>Lu. extracted h repository u = Inr Lu) \<and> tag_query h repository u \<noteq> No_tag_object"
      by (metis Un_iff set_append tag_object.distinct(1))
    from tags_loop_quiet [OF ans_after unch_after inv2] obtain st3 where
      s3: "tags_loop h repository after ?st2 = Inr st3"
      "pass_invariant h repository images (?P \<union> set after) st3"
      "prefix (map unstamped (repository_images ?st2)) (map unstamped (repository_images st3))"
      by blast
    from run p s3(1) have res: "update_repository h repository images =
        Inr (repository_images st3)"
      by (simp add: update_repository_def tags)
    from s3(3) obtain W where
      "map unstamped (repository_images st3) = map unstamped (repository_images ?st2) @ W"
      by (auto simp: prefix_def)
    with U2 have U3: "map unstamped (repository_images st3) =
        map unstamped images @ (V @ [unstamped ?new] @ W)" by simp
    note parts = stored_then_appended [OF U3]
    have "unstamped ?new \<in> set (V @ [unstamped ?new] @ W)" by simp
    then have "unstamped ?new \<in> unstamped ` set (drop (length images) (repository_images st3))"
      unfolding parts(2) [symmetric] by simp
    then obtain new where new: "new \<in> set (drop (length images) (repository_images st3))"
      "unstamped new = unstamped ?new" by auto
    from new(2) have "fs_layers new = L" "image_tag new = t" "created new = c"
      by (metis unstamped_fields(1) image.select_convs(1),
          metis unstamped_fields(2) image.select_convs(2),
          metis unstamped_fields(3) image.select_convs(4))
    with new(1) have "\<exists>new\<in>set (drop (length images) (repository_images st3)).
        fs_layers new = L \<and> image_tag new = t \<and> created new = c" by blast
    moreover from s3(2) have "distinct (map fs_layers (repository_images st3))"
      unfolding pass_invariant_iff by blast
    ultimately show "\<exists>images'. update_repository h repository images = Inr images' \<and>
               map unstamped (take (length images) images') = map unstamped images \<and>
               (\<exists>new\<in>set (drop (length images) images').
                  fs_layers new = L \<and> image_tag new = t \<and> created new = c) \<and>
               distinct (map fs_layers images')"
      using res parts(1) by blast
  }
  {
    assume unanswered: "tag_query h repository t = Tag_object Absent \<or>
          tag_query h repository t = Tag_object Null_string \<or>
          tag_query h repository t \<noteq> No_tag_object \<and> created_query h repository t = None"
    then have tq: "tag_query h repository t \<noteq> No_tag_object" by auto
    from unanswered have no_append: "\<not> ((\<exists>ut. tag_query h repository t = Tag_object (Timestamp ut)) \<and>
        created_query h repository t \<noteq> None)" by auto
    let ?tags = "before @ t # after"
    from answers layers tq have ans: "\<forall>u\<in>set ?tags.
        (\<exists>Lu. extracted h repository u = Inr Lu) \<and> tag_query h repository u \<noteq> No_tag_object"
      by auto
    from unchanged fresh have unch: "\<forall>u\<in>set ?tags. \<forall>img\<in>set images. image_tag img = u \<longrightarrow>
        extracted h repository u = Inr [] \<or> extracted h repository u = Inr (fs_layers img)"
      by auto
    from different have inv0: "pass_invariant h repository images {} ?st0"
      by (simp add: pass_invariant_def)
    from tags_loop_quiet [OF ans unch inv0] obtain st3 where
      s3: "tags_loop h repository ?tags ?st0 = Inr st3"
      "pass_invariant h repository images ({} \<union> set ?tags) st3" by blast
    from s3(1) have res: "update_repository h repository images = Inr (repository_images st3)"
      by (simp add: update_repository_def tags)
    from s3(2) obtain V where
      V: "map unstamped (repository_images st3) = map unstamped images @ V"
        "\<forall>v\<in>set V. added_by h repository ({} \<union> set ?tags) v"
      unfolding pass_invariant_iff by blast
    have "\<forall>img\<in>set (repository_images st3). image_tag img \<noteq> t"
    proof
      fix img assume "img \<in> set (repository_images st3)"
      then have "unstamped img \<in> set (map unstamped (repository_images st3))" by simp
      with V(1) have "unstamped img \<in> set (map unstamped images) \<or> unstamped img \<in> set V"
        by simp
      then show "image_tag img \<noteq> t"
      proof
        assume "unstamped img \<in> set (map unstamped images)"
        then obtain orig where o: "orig \<in> set images" "unstamped orig = unstamped img" by auto
        from o(2) have "image_tag orig = image_tag img" by (metis unstamped_fields(2))
        with fresh o(1) show ?thesis by auto
      next
        assume "unstamped img \<in> set V"
        with V(2) have "added_by h repository ({} \<union> set ?tags) (unstamped img)" ..
        then have "(\<exists>ut. tag_query h repository (image_tag img) = Tag_object (Timestamp ut)) \<and>
            created_query h repository (image_tag img) \<noteq> None"
          by (auto simp: added_by_iff unstamped_fields)
        with no_append show ?thesis by auto
      qed
    qed
    with res stored_then_appended(1) [OF V(1)]
    show "\<exists>images'. update_repository h repository images = Inr images' \<and>
               map unstamped (take (length images) images') = map unstamped images \<and>
               (\<forall>img\<in>set images'. image_tag img \<noteq> t)" by blast
  }
qed

text \<open>
  The scenario of \<open>redis\<close>: after the pass over the tags \<open>7\<close> and \<open>6\<close> the record of tag
  \<open>6\<close> is in place and the record of tag \<open>7\<close> follows it; when the lookup of tag \<open>7\<close>
  fails the pass raises \<open>AttributeError\<close>.
\<close>

theorem update_repository_appends_new_image_witness:
  "update_repository redis_hub ''redis'' [redis_6] = Inr [redis_6, redis_7] \<and>
   map unstamped (take (length [redis_6]) [redis_6, redis_7]) = map unstamped [redis_6] \<and>
   distinct (map fs_layers [redis_6, redis_7]) \<and>
   update_repository redis_hub_no_tag_object ''redis'' [redis_6] = Inl AttributeError"
proof -
  let ?L = "''aaa111222333444555666''"
  have first: "''7'' \<notin> set []" by simp
  have early: "length ([] :: string list) < non_updated_threshold"
    by (simp add: non_updated_threshold_def)
  have different: "distinct (map fs_layers [redis_6])" by simp
  have nonempty: "?L \<noteq> []" by simp
  have fresh: "\<forall>img\<in>set [redis_6]. fs_layers img \<noteq> ?L \<and> image_tag img \<noteq> ''7''"
    by (simp add: redis_6_def)
  have a: "update_repository redis_hub ''redis'' [redis_6] = Inr [redis_6, redis_7] \<and>
      map unstamped (take (length [redis_6]) [redis_6, redis_7]) = map unstamped [redis_6] \<and>
      distinct (map fs_layers [redis_6, redis_7])"
  proof -
    have e6: "extracted redis_hub ''redis'' ''6'' = Inr ''aaa111222333''" by code_simp
    have e7: "extracted redis_hub ''redis'' ''7'' = Inr ?L" by code_simp
    have tags: "repository_tags redis_hub ''redis'' = [] @ ''7'' # [''6'']"
      by (simp add: redis_hub_def)
    have answers: "\<forall>u\<in>set ([] @ [''6'']). u \<noteq> ''7'' \<longrightarrow>
        (\<exists>Lu. extracted redis_hub ''redis'' u = Inr Lu) \<and>
        tag_query redis_hub ''redis'' u \<noteq> No_tag_object"
    proof -
      have "tag_query redis_hub ''redis'' ''6'' \<noteq> No_tag_object" by (simp add: redis_hub_def)
      then show ?thesis by (simp add: e6)
    qed
    have unchanged: "\<forall>u\<in>set ([] @ [''6'']). \<forall>img\<in>set [redis_6]. image_tag img = u \<longrightarrow>
        extracted redis_hub ''redis'' u = Inr [] \<or>
        extracted redis_hub ''redis'' u = Inr (fs_layers img)"
      by (simp add: e6 redis_6_def)
    have other: "\<forall>u\<in>set []. extracted redis_hub ''redis'' u \<noteq> Inr ?L" by simp
    have lookups: "tag_query redis_hub ''redis'' ''7'' = Tag_object (Timestamp 200) \<and>
        created_query redis_hub ''redis'' ''7'' = Some 190"
      by (simp add: redis_hub_def)
    have run: "update_repository redis_hub ''redis'' [redis_6] = Inr [redis_6, redis_7]"
      by code_simp
    from update_repository_appends_new_image
      [OF tags first early answers unchanged different e7 nonempty fresh other,
       THEN conjunct1, THEN mp, OF lookups]
    obtain images' where
      r: "update_repository redis_hub ''redis'' [redis_6] = Inr images'"
      "map unstamped (take (length [redis_6]) images') = map unstamped [redis_6]"
      "distinct (map fs_layers images')" by blast
    from r(1) run have "images' = [redis_6, redis_7]" by simp
    with r run show ?thesis by simp
  qed
  have b: "update_repository redis_hub_no_tag_object ''redis'' [redis_6] = Inl AttributeError"
  proof -
    have e6: "extracted redis_hub_no_tag_object ''redis'' ''6'' = Inr ''aaa111222333''"
      by code_simp
    have e7: "extracted redis_hub_no_tag_object ''redis'' ''7'' = Inr ?L" by code_simp
    have tags: "repository_tags redis_hub_no_tag_object ''redis'' = [] @ ''7'' # [''6'']"
      by (simp add: redis_hub_no_tag_object_def redis_hub_def)
    have answers: "\<forall>u\<in>set ([] @ [''6'']). u \<noteq> ''7'' \<longrightarrow>
        (\<exists>Lu. extracted redis_hub_no_tag_object ''redis'' u = Inr Lu) \<and>
        tag_query redis_hub_no_tag_object ''redis'' u \<noteq> No_tag_object"
    proof -
      have "tag_query redis_hub_no_tag_object ''redis'' ''6'' \<noteq> No_tag_object"
        by (simp add: redis_hub_no_tag_object_def)
      then show ?thesis by (simp add: e6)
    qed
    have unchanged: "\<forall>u\<in>set ([] @ [''6'']). \<forall>img\<in>set [redis_6]. image_tag img = u \<longrightarrow>
        extracted redis_hub_no_tag_object ''redis'' u = Inr [] \<or>
        extracted redis_hub_no_tag_object ''redis'' u = Inr (fs_layers img)"
      by (simp add: e6 redis_6_def)
    have other: "\<forall>u\<in>set []. extracted redis_hub_no_tag_object ''redis'' u \<noteq> Inr ?L" by simp
    have failed: "tag_query redis_hub_no_tag_object ''redis'' ''7'' = No_tag_object"
      by (simp add: redis_hub_no_tag_object_def)
    from update_repository_appends_new_image
      [OF tags first early answers unchanged different e7 nonempty fresh other,
       THEN conjunct2, THEN conjunct2, THEN mp, OF failed]
    show ?thesis .
  qed
  from a b show ?thesis by (simp only: simp_thms)
qed

text \<open>
  Claim C5 as stated fails in two ways. Upstream reports tag \<open>7\<close> with the new layers and
  a timestamp, but the creation-time lookup has no answer: after the pass the repository
  holds the record of tag \<open>6\<close> alone. Upstream reports the new layers for tag \<open>6\<close> as
  well: the pass appends the record of tag \<open>7\<close> and then removes the record of tag \<open>6\<close>.
\<close>

theorem update_repository_new_tag_counterexample:
  "''7'' \<in> set (repository_tags redis_hub_no_created ''redis'') \<and>
   extracted redis_hub_no_created ''redis'' ''7'' = Inr ''aaa111222333444555666'' \<and>
   tag_query redis_hub_no_created ''redis'' ''7'' = Tag_object (Timestamp 200) \<and>
   fs_layers redis_6 = ''aaa111222333'' \<and> image_tag redis_6 = ''6'' \<and>
   update_repository redis_hub_no_created ''redis'' [redis_6] = Inr [redis_6] \<and>
   ''7'' \<in> set (repository_tags redis_hub_retagged ''redis'') \<and>
   extracted redis_hub_retagged ''redis'' ''7'' = Inr ''aaa111222333444555666'' \<and>
   update_repository redis_hub_retagged ''redis'' [redis_6] = Inr [redis_7]"
  by code_simp








section \<open>Properties of the duplicate resolver\<close>
















end
